theory Spec2Isabelle
  imports Complex_Main "HOL-Library.AList"
begin

section \<open>Supernet architecture search: a shallow embedding of arch_search_tf.py\<close>

text \<open>
  The development follows \<^verbatim>\<open>src/arch_search_tf.py\<close>. A TensorFlow variable is a handle
  into a store of tensor values; \<^verbatim>\<open>assign\<close> overwrites the value at the handle, and two
  Python references to the same variable object are the same handle, so identity
  (\<^verbatim>\<open>is\<close>) is equality of handles. Tensor arithmetic is exact arithmetic on the reals:
  rounding, infinities and NaN of float32 are not represented. The numeric engine, the
  candidate operations, the optimizers, the sampler of the relaxed categorical
  distribution and the profiler behind \<^verbatim>\<open>get_flops_inputs\<close> are libraries outside the
  file; they enter as the fields of a record of external functions. Diagnostic
  \<^verbatim>\<open>print\<close> calls are left out, except the genotype report of the architecture
  watcher, which is that callback's only product.
\<close>

subsection \<open>Tensors, variables and errors\<close>

datatype 'a tensor = Sc 'a | Tn "'a tensor list"

type_synonym handle = nat

type_synonym store = "handle \<Rightarrow> real tensor option"

datatype error =
    AssertionError
  | ZeroDivisionError
  | AttributeError
  | InvalidArgumentError

definition assign :: "handle \<Rightarrow> real tensor \<Rightarrow> store \<Rightarrow> store" where
  "assign h v s = s(h \<mapsto> v)"

subsection \<open>The mixture layer's attributes and the wrapped network\<close>

text \<open>
  \<^verbatim>\<open>MixedModuleTf\<close>: \<^verbatim>\<open>sublayers\<close> holds the attributes \<^verbatim>\<open>sublayer_<name>\<close> set by
  \<^verbatim>\<open>add_module\<close>; the three weights and the distribution exist only after \<^verbatim>\<open>build\<close>,
  so they are optional. The distribution object keeps the two variable objects it was
  constructed with (logits, temperature).
\<close>

record 'op MixedModuleTf =
  sublayers :: "(string \<times> 'op) list"
  op_names :: "string list"
  cost_loss_multiplier :: real
  built :: bool
  gumbel_temperature :: "handle option"
  ops_cost_static :: "handle option"
  gumble_arch_params :: "handle option"
  gumbel_dist :: "(handle \<times> handle) option"

text \<open>
  A module of the wrapped network is a mixture layer or any other layer. The wrapped
  network is a chain of modules; \<^verbatim>\<open>submodules\<close> enumerates them in order.
\<close>

datatype 'op module = Mixed "'op MixedModuleTf" | Other 'op

type_synonym 'op network = "'op module list"

subsection \<open>SupernetTemperatureCallback\<close>

record SupernetTemperatureCallback =
  temperature_variables :: "handle list"
  start_epoch :: int
  final_epoch :: int
  start_temp :: real
  end_temp :: real

text \<open>
  The loop of \<^verbatim>\<open>__init__\<close> over \<^verbatim>\<open>model.submodules\<close>: for every mixture layer,
  \<^verbatim>\<open>assert mod.built\<close>, then append \<^verbatim>\<open>mod.gumbel_temperature\<close>.
\<close>

fun collect_temperature :: "'op network \<Rightarrow> error + handle list" where
  "collect_temperature [] = Inr []"
| "collect_temperature (Other _ # ms) = collect_temperature ms"
| "collect_temperature (Mixed m # ms) =
     (if \<not> built m then Inl AssertionError
      else case gumbel_temperature m of
        None \<Rightarrow> Inl AttributeError
      | Some h \<Rightarrow>
          (case collect_temperature ms of
             Inl e \<Rightarrow> Inl e
           | Inr hs \<Rightarrow> Inr (h # hs)))"

definition SupernetTemperatureCallback_init ::
  "'op network \<Rightarrow> int \<Rightarrow> int \<Rightarrow> real \<Rightarrow> real \<Rightarrow> error + SupernetTemperatureCallback" where
  "SupernetTemperatureCallback_init model se fe st et =
     (case collect_temperature model of
        Inl e \<Rightarrow> Inl e
      | Inr hs \<Rightarrow>
          if st > et
          then Inr \<lparr>temperature_variables = hs, start_epoch = se, final_epoch = fe,
                    start_temp = st, end_temp = et\<rparr>
          else Inl AssertionError)"

text \<open>
  The first two statements of \<^verbatim>\<open>on_epoch_begin\<close>. Python's \<^verbatim>\<open>/\<close> raises
  ZeroDivisionError on a zero divisor, for integers and for floats.
\<close>

definition epoch_temperature :: "SupernetTemperatureCallback \<Rightarrow> int \<Rightarrow> error + real" where
  "epoch_temperature cb epoch =
     (if final_epoch cb - start_epoch cb = 0 then Inl ZeroDivisionError
      else
        let delta_temp = (end_temp cb - start_temp cb) / of_int (final_epoch cb - start_epoch cb)
        in Inr (max (start_temp cb + delta_temp * of_int (max (epoch - start_epoch cb) 0))
                    (end_temp cb)))"

text \<open>The loop \<^verbatim>\<open>for temp_var in self.temperature_variables: temp_var.assign(temperature)\<close>.\<close>

fun assign_all :: "handle list \<Rightarrow> real tensor \<Rightarrow> store \<Rightarrow> store" where
  "assign_all [] v s = s"
| "assign_all (h # hs) v s = assign_all hs v (assign h v s)"

definition on_epoch_begin :: "SupernetTemperatureCallback \<Rightarrow> int \<Rightarrow> store \<Rightarrow> error + store" where
  "on_epoch_begin cb epoch s =
     (case epoch_temperature cb epoch of
        Inl e \<Rightarrow> Inl e
      | Inr temperature \<Rightarrow> Inr (assign_all (temperature_variables cb) (Sc temperature) s))"

subsection \<open>MixedModuleTf construction\<close>




text \<open>
  A Python dict is its list of items in insertion order, with distinct keys. Storing a key
  that is present replaces the value in place, storing a new key appends: this is
  \<^const>\<open>AList.update\<close>. \<open>py_dict\<close> is the dict built from a sequence of pairs (a dict
  display, a comprehension or \<^verbatim>\<open>dict(pairs)\<close>).
\<close>

definition py_dict :: "('k \<times> 'v) list \<Rightarrow> ('k \<times> 'v) list" where
  "py_dict pairs = fold (\<lambda>(k, v). AList.update k v) pairs []"




definition get_module :: "'op MixedModuleTf \<Rightarrow> string \<Rightarrow> error + 'op" where
  "get_module m name =
     (case map_of (sublayers m) name of None \<Rightarrow> Inl AttributeError | Some layer \<Rightarrow> Inr layer)"


subsection \<open>NasModel.compile\<close>

text \<open>
  \<^verbatim>\<open>NasModel\<close> wraps the network \<^verbatim>\<open>self.mod\<close> (the field \<open>mod_net\<close>; its
  \<^verbatim>\<open>submodules\<close> are the modules of that network). \<^verbatim>\<open>trainable_variables\<close> is the list Keras
  reports for the model. The attributes set by \<^verbatim>\<open>compile\<close> do not exist before it.
  The primary optimizer is among the arguments handed on to Keras' own \<^verbatim>\<open>compile\<close>,
  which stores it as \<^verbatim>\<open>self.optimizer\<close>.
\<close>

record ('op, 'opt) NasModel =
  mod_net :: "'op network"
  trainable_variables :: "handle list"
  optimizer :: "'opt option"
  arch_optimizer :: "'opt option"
  arch_params :: "handle list option"
  non_arch_params :: "handle list option"
  concat_params :: "handle list option"

definition NasModel_init :: "'op network \<Rightarrow> handle list \<Rightarrow> ('op, 'opt) NasModel" where
  "NasModel_init model tv =
     \<lparr>mod_net = model, trainable_variables = tv, optimizer = None, arch_optimizer = None,
      arch_params = None, non_arch_params = None, concat_params = None\<rparr>"

text \<open>The first loop of \<^verbatim>\<open>compile\<close>, over \<^verbatim>\<open>self.submodules\<close>.\<close>

fun collect_arch_params :: "'op network \<Rightarrow> error + handle list" where
  "collect_arch_params [] = Inr []"
| "collect_arch_params (Other _ # ms) = collect_arch_params ms"
| "collect_arch_params (Mixed m # ms) =
     (if \<not> built m then Inl AssertionError
      else case gumble_arch_params m of
        None \<Rightarrow> Inl AttributeError
      | Some h \<Rightarrow>
          (case collect_arch_params ms of
             Inl e \<Rightarrow> Inl e
           | Inr hs \<Rightarrow> Inr (h # hs)))"

text \<open>
  The second loop keeps \<open>v\<close> when \<^verbatim>\<open>not any(v is arch_param for arch_param in self.arch_params)\<close>.
\<close>

definition compile :: "('op, 'opt) NasModel \<Rightarrow> 'opt \<Rightarrow> 'opt \<Rightarrow> error + ('op, 'opt) NasModel" where
  "compile nm primary_optimizer arch_opt =
     (case collect_arch_params (mod_net nm) of
        Inl e \<Rightarrow> Inl e
      | Inr ap \<Rightarrow>
          let nap = filter (\<lambda>v. \<not> list_ex (\<lambda>arch_param. v = arch_param) ap)
                      (trainable_variables nm)
          in if length (trainable_variables nm) = length ap + length nap
             then Inr (nm\<lparr>optimizer := Some primary_optimizer,
                          arch_optimizer := Some arch_opt,
                          arch_params := Some ap,
                          non_arch_params := Some nap,
                          concat_params := Some (nap @ ap)\<rparr>)
             else Inl AssertionError)"

subsection \<open>SupernetArchWatcherCallback\<close>

text \<open>
  The callback keeps, per mixture layer found at construction, the preference variable and
  the list of operation names (the fields \<^verbatim>\<open>gumbel_arch_params\<close> and \<^verbatim>\<open>op_names\<close>).
\<close>

record SupernetArchWatcherCallback =
  w_gumbel_arch_params :: "handle list"
  w_op_names :: "string list list"

fun collect_watched :: "'op network \<Rightarrow> error + (handle list \<times> string list list)" where
  "collect_watched [] = Inr ([], [])"
| "collect_watched (Other _ # ms) = collect_watched ms"
| "collect_watched (Mixed m # ms) =
     (if \<not> built m then Inl AssertionError
      else case gumble_arch_params m of
        None \<Rightarrow> Inl AttributeError
      | Some h \<Rightarrow>
          (case collect_watched ms of
             Inl e \<Rightarrow> Inl e
           | Inr (hs, ns) \<Rightarrow> Inr (h # hs, op_names m # ns)))"

definition SupernetArchWatcherCallback_init ::
  "'op network \<Rightarrow> error + SupernetArchWatcherCallback" where
  "SupernetArchWatcherCallback_init model =
     (case collect_watched model of
        Inl e \<Rightarrow> Inl e
      | Inr (hs, ns) \<Rightarrow> Inr \<lparr>w_gumbel_arch_params = hs, w_op_names = ns\<rparr>)"

text \<open>
  The value of a preference variable is a tensor of rank one; \<open>vector_of\<close> reads it as
  the list of its entries. \<^verbatim>\<open>tf.nn.softmax\<close> on such a vector divides the exponential
  of each entry by the sum of all of them.
\<close>

fun scalar_of :: "'a tensor \<Rightarrow> 'a option" where
  "scalar_of (Sc x) = Some x"
| "scalar_of (Tn _) = None"

fun vector_of :: "'a tensor \<Rightarrow> 'a list option" where
  "vector_of (Sc _) = None"
| "vector_of (Tn ts) =
     (if list_all (\<lambda>t. scalar_of t \<noteq> None) ts then Some (map (\<lambda>t. the (scalar_of t)) ts)
      else None)"

definition softmax :: "real list \<Rightarrow> real list" where
  "softmax xs = map (\<lambda>x. exp x / sum_list (map exp xs)) xs"

text \<open>
  The inner loop of \<^verbatim>\<open>on_epoch_end\<close>: \<^verbatim>\<open>gene[name] = probs[i]\<close> for the names in
  order; an index past the end of \<^verbatim>\<open>probs\<close> is an error.
\<close>

fun make_gene ::
  "string list \<Rightarrow> nat \<Rightarrow> real list \<Rightarrow> (string \<times> real) list \<Rightarrow> error + (string \<times> real) list" where
  "make_gene [] i probs gene = Inr gene"
| "make_gene (name # names) i probs gene =
     (if i < length probs then make_gene names (Suc i) probs (AList.update name (probs ! i) gene)
      else Inl InvalidArgumentError)"

text \<open>
  The outer loop over \<^verbatim>\<open>zip(self.op_names, self.gumbel_arch_params)\<close>. A handle always
  refers to a live variable, and a preference variable has rank one; anything else is
  reported as an error.
\<close>

fun make_genotype ::
  "(string list \<times> handle) list \<Rightarrow> store \<Rightarrow> error + (string \<times> real) list list" where
  "make_genotype [] s = Inr []"
| "make_genotype ((names, params) # rest) s =
     (case s params of
        None \<Rightarrow> Inl InvalidArgumentError
      | Some t \<Rightarrow>
          (case vector_of t of
             None \<Rightarrow> Inl InvalidArgumentError
           | Some xs \<Rightarrow>
               (case make_gene names 0 (softmax xs) [] of
                  Inl e \<Rightarrow> Inl e
                | Inr gene \<Rightarrow>
                    (case make_genotype rest s of
                       Inl e \<Rightarrow> Inl e
                     | Inr genotype \<Rightarrow> Inr (gene # genotype)))))"

text \<open>
  \<^verbatim>\<open>on_epoch_end\<close> prints the epoch and the genotype. The result carries the store after
  the call and what was printed.
\<close>

definition on_epoch_end ::
  "SupernetArchWatcherCallback \<Rightarrow> int \<Rightarrow> store \<Rightarrow>
   error + (store \<times> int \<times> (string \<times> real) list list)" where
  "on_epoch_end w epoch s =
     (case make_genotype (zip (w_op_names w) (w_gumbel_arch_params w)) s of
        Inl e \<Rightarrow> Inl e
      | Inr genotype \<Rightarrow> Inr (s, epoch, genotype))"

subsection \<open>Tensor operations\<close>

text \<open>
  The shape of a tensor, read along first entries, and regularity: all entries of a
  level have the same shape.
\<close>

fun shape :: "'a tensor \<Rightarrow> nat list" where
  "shape (Sc _) = []"
| "shape (Tn []) = [0]"
| "shape (Tn (t # ts)) = Suc (length ts) # shape t"

fun regular :: "'a tensor \<Rightarrow> bool" where
  "regular (Sc _) = True"
| "regular (Tn ts) = list_all (\<lambda>t. regular t \<and> shape t = shape (hd ts)) ts"

fun rows_of :: "'a tensor \<Rightarrow> 'a tensor list" where
  "rows_of (Sc _) = []"
| "rows_of (Tn ts) = ts"

text \<open>All entries in row-major order.\<close>

fun elements :: "'a tensor \<Rightarrow> 'a list" where
  "elements (Sc a) = [a]"
| "elements (Tn ts) = concat (map elements ts)"

text \<open>
  \<^verbatim>\<open>tf.stack(outputs, axis=1)\<close>: the tensors must have one common shape of rank at least
  one; entry \<open>[b][i]\<close> of the result is entry \<open>[b]\<close> of the \<open>i\<close>-th tensor.
\<close>

definition stack_axis1 :: "'a tensor list \<Rightarrow> error + 'a tensor" where
  "stack_axis1 outputs =
     (case outputs of
        [] \<Rightarrow> Inl InvalidArgumentError
      | t # _ \<Rightarrow>
          if shape t = [] \<or> \<not> list_all (\<lambda>u. regular u \<and> shape u = shape t) outputs
          then Inl InvalidArgumentError
          else Inr (Tn (map (\<lambda>b. Tn (map (\<lambda>u. rows_of u ! b) outputs))
                         [0..<length (rows_of t)])))"

text \<open>
  \<^verbatim>\<open>tf.reshape(gumbel_weights, [orig_shape[0], orig_shape[1]] + [1] * k)\<close>. The sampled
  weights have rank two (batch, operations), so the reshape appends \<open>k\<close> axes of
  length one: every entry is wrapped \<open>k\<close> times. Weights of another rank are reported
  as an error.
\<close>

fun wrap :: "nat \<Rightarrow> 'a tensor \<Rightarrow> 'a tensor" where
  "wrap 0 t = t"
| "wrap (Suc k) t = Tn [wrap k t]"

fun append_unit_axes :: "nat \<Rightarrow> 'a tensor \<Rightarrow> 'a tensor" where
  "append_unit_axes k (Sc a) = wrap k (Sc a)"
| "append_unit_axes k (Tn ts) = Tn (map (append_unit_axes k) ts)"

definition reshape_weights :: "'a tensor \<Rightarrow> nat \<Rightarrow> error + 'a tensor" where
  "reshape_weights gumbel_weights k =
     (if regular gumbel_weights \<and> length (shape gumbel_weights) = 2
      then Inr (append_unit_axes k gumbel_weights)
      else Inl InvalidArgumentError)"

text \<open>
  Elementwise product with broadcasting: a scalar combines with every entry; along an
  axis two tensors have the same length, or one of them has length one and is repeated.
  \<open>tmul\<close> computes the product, \<open>broadcast_mul\<close> first checks that the operands are
  regular and either one is a scalar or the shapes have equal rank and are compatible
  axis by axis; operands of different positive rank do not occur in the file.
\<close>

function tmul :: "real tensor \<Rightarrow> real tensor \<Rightarrow> real tensor" where
  "tmul (Sc a) (Sc b) = Sc (a * b)"
| "tmul (Sc a) (Tn ys) = Tn (map (\<lambda>y. tmul (Sc a) y) ys)"
| "tmul (Tn xs) (Sc b) = Tn (map (\<lambda>x. tmul x (Sc b)) xs)"
| "tmul (Tn xs) (Tn ys) =
     (if length xs = length ys then Tn (map (\<lambda>i. tmul (xs ! i) (ys ! i)) [0..<length xs])
      else if length xs = 1 then Tn (map (\<lambda>y. tmul (xs ! 0) y) ys)
      else if length ys = 1 then Tn (map (\<lambda>x. tmul x (ys ! 0)) xs)
      else Tn [])"
  by pat_completeness auto
termination
proof (relation "measure (\<lambda>(a, b). size a + size b)", goal_cases)
  case 1
  show ?case by simp
next
  case (2 a ys y)
  then show ?case by (simp add: size_list_estimation' less_Suc_eq_le)
next
  case (3 xs b x)
  then show ?case by (simp add: size_list_estimation' less_Suc_eq_le)
next
  case (4 xs ys i)
  then have "xs ! i \<in> set xs" "ys ! i \<in> set ys" by simp_all
  then have "size (xs ! i) \<le> size_list size xs" "size (ys ! i) \<le> size_list size ys"
    by (simp_all add: size_list_estimation')
  then show ?case by simp
next
  case (5 xs ys y)
  then have a: "xs ! 0 \<in> set xs" by simp
  have "size (xs ! 0) \<le> size_list size xs"
    by (rule size_list_estimation' [OF a]) simp
  moreover have "size y \<le> size_list size ys"
    using 5 by (simp add: size_list_estimation')
  ultimately have "size (xs ! 0) \<le> size_list size xs" "size y \<le> size_list size ys"
    by simp_all
  then show ?case by simp
next
  case (6 xs ys x)
  then have a: "ys ! 0 \<in> set ys" by simp
  have "size (ys ! 0) \<le> size_list size ys"
    by (rule size_list_estimation' [OF a]) simp
  moreover have "size x \<le> size_list size xs"
    using 6 by (simp add: size_list_estimation')
  ultimately have "size x \<le> size_list size xs" "size (ys ! 0) \<le> size_list size ys"
    by simp_all
  then show ?case by simp
qed

definition compatible :: "nat list \<Rightarrow> nat list \<Rightarrow> bool" where
  "compatible sa sb = list_all2 (\<lambda>a b. a = b \<or> a = 1 \<or> b = 1) sa sb"

definition broadcast_mul :: "real tensor \<Rightarrow> real tensor \<Rightarrow> error + real tensor" where
  "broadcast_mul a b =
     (if regular a \<and> regular b \<and> (shape a = [] \<or> shape b = [] \<or> compatible (shape a) (shape b))
      then Inr (tmul a b)
      else Inl InvalidArgumentError)"

text \<open>
  Elementwise sum of two tensors of one shape, the sum of a list of them, and
  \<^verbatim>\<open>tf.math.reduce_sum(t, axis=1)\<close>, which adds up the entries of every row.
\<close>

function tadd :: "real tensor \<Rightarrow> real tensor \<Rightarrow> real tensor" where
  "tadd (Sc a) (Sc b) = Sc (a + b)"
| "tadd (Tn xs) (Tn ys) = Tn (map (\<lambda>i. tadd (xs ! i) (ys ! i)) [0..<min (length xs) (length ys)])"
| "tadd (Sc a) (Tn ys) = Tn ys"
| "tadd (Tn xs) (Sc b) = Tn xs"
  by pat_completeness auto
termination
proof (relation "measure (\<lambda>(a, b). size a)", goal_cases)
  case 1
  show ?case by simp
next
  case (2 xs ys i)
  then have "xs ! i \<in> set xs" by simp
  then have "size (xs ! i) \<le> size_list size xs"
    by (simp add: size_list_estimation')
  then show ?case by simp
qed

definition tsum :: "real tensor list \<Rightarrow> real tensor" where
  "tsum ts = (case ts of [] \<Rightarrow> Sc 0 | t # rest \<Rightarrow> foldl tadd t rest)"

definition reduce_sum_axis1 :: "real tensor \<Rightarrow> real tensor" where
  "reduce_sum_axis1 t = Tn (map (\<lambda>row. tsum (rows_of row)) (rows_of t))"

text \<open>
  \<^verbatim>\<open>tf.reduce_mean\<close> over all entries. The mean of no entries is 0/0, which TensorFlow
  computes as NaN; this is the one place where NaN is represented.
\<close>

datatype fl = Num real | NaN

definition reduce_mean :: "real tensor \<Rightarrow> fl" where
  "reduce_mean t =
     (let es = elements t in if es = [] then NaN else Num (sum_list es / of_nat (length es)))"

subsection \<open>Program state and external functions\<close>

text \<open>
  What a run records of its calls into the libraries: a draw from the distribution (with
  the temperature and logits values it was given and the number of samples), a forward
  computation of a candidate operation or ordinary layer on an input, a differentiation
  call, an optimizer application.
\<close>

datatype ('op, 'opt) event =
    Sampled "real tensor" "real tensor" nat
  | OpCalled 'op "real tensor"
  | GradientCalled fl "handle list"
  | GradientsApplied 'opt "(real tensor option \<times> handle) list"

text \<open>
  The state: the variables, the next free handle, the losses registered by
  \<^verbatim>\<open>add_loss\<close> during the current forward pass, the internal state of the libraries
  (random generator, optimizer slots, metric accumulators) and the record of calls.
\<close>

record ('op, 'opt, 'w) state =
  vars :: store
  next_handle :: handle
  losses :: "fl list"
  world :: 'w
  trace :: "('op, 'opt) event list"

text \<open>
  The libraries. \<open>op_call\<close> is the forward computation of a candidate operation or of an
  ordinary layer, a function of the input and of the variables; \<open>op_build\<close> gives the
  initial values of the weights such a layer creates when built for an input shape;
  \<open>get_flops_inputs\<close> is the profiler's count of floating-point operations;
  \<open>sample\<close> draws from the relaxed one-hot categorical distribution with the given
  temperature and logits; \<open>compiled_loss\<close> is Keras' compiled loss, given the targets,
  the predictions and the regularization losses; \<open>tape_gradient\<close> differentiates the
  loss recorded on the tape (the computation run from the given variables and library
  state on the given inputs and targets) with respect to the listed variables;
  \<open>apply_gradients\<close> is an optimizer's update; the last two are the compiled metrics.
\<close>

record ('op, 'opt, 'w) ext =
  op_call :: "'op \<Rightarrow> store \<Rightarrow> real tensor \<Rightarrow> real tensor"
  op_build :: "'op \<Rightarrow> nat list \<Rightarrow> real tensor list"
  get_flops_inputs :: "'op \<Rightarrow> nat list \<Rightarrow> int"
  sample :: "'w \<Rightarrow> real tensor \<Rightarrow> real tensor \<Rightarrow> nat \<Rightarrow> real tensor \<times> 'w"
  compiled_loss :: "real tensor \<Rightarrow> real tensor \<Rightarrow> fl list \<Rightarrow> fl"
  tape_gradient ::
    "store \<Rightarrow> 'w \<Rightarrow> real tensor \<Rightarrow> real tensor \<Rightarrow> fl \<Rightarrow> handle list \<Rightarrow> real tensor option list"
  apply_gradients ::
    "'opt \<Rightarrow> (real tensor option \<times> handle) list \<Rightarrow> store \<times> 'w \<Rightarrow> store \<times> 'w"
  update_metrics :: "real tensor \<Rightarrow> real tensor \<Rightarrow> 'w \<Rightarrow> 'w"
  metrics_result :: "'w \<Rightarrow> (string \<times> real) list"

subsection \<open>MixedModuleTf.build\<close>

text \<open>\<^verbatim>\<open>add_weight\<close> creates a new variable, at the next free handle.\<close>

definition add_weight ::
  "real tensor \<Rightarrow> ('op, 'opt, 'w) state \<Rightarrow> handle \<times> ('op, 'opt, 'w) state" where
  "add_weight v st =
     (next_handle st,
      st\<lparr>vars := (vars st)(next_handle st \<mapsto> v), next_handle := Suc (next_handle st)\<rparr>)"

text \<open>
  The loop \<^verbatim>\<open>for name in self.op_names: self.get_module(name).build(input_shape)\<close>;
  building a candidate operation creates its weights.
\<close>

fun build_ops ::
  "('op, 'opt, 'w) ext \<Rightarrow> 'op MixedModuleTf \<Rightarrow> string list \<Rightarrow> nat list \<Rightarrow>
   ('op, 'opt, 'w) state \<Rightarrow> error + ('op, 'opt, 'w) state" where
  "build_ops E m [] input_shape st = Inr st"
| "build_ops E m (name # names) input_shape st =
     (case get_module m name of
        Inl e \<Rightarrow> Inl e
      | Inr layer \<Rightarrow>
          build_ops E m names input_shape
            (fold (\<lambda>v st. snd (add_weight v st)) (op_build E layer input_shape) st))"

text \<open>
  \<^verbatim>\<open>self.ops_cost_static[0, i].assign(flops)\<close>: the entry at row \<open>r\<close>, column \<open>c\<close> of the
  variable's value is replaced.
\<close>

definition slice_assign :: "real tensor \<Rightarrow> nat \<Rightarrow> nat \<Rightarrow> real \<Rightarrow> error + real tensor" where
  "slice_assign t r c v =
     (case t of
        Sc _ \<Rightarrow> Inl InvalidArgumentError
      | Tn rows \<Rightarrow>
          if r < length rows then
            (case rows ! r of
               Sc _ \<Rightarrow> Inl InvalidArgumentError
             | Tn row \<Rightarrow>
                 if c < length row then Inr (Tn (rows[r := Tn (row[c := Sc v])]))
                 else Inl InvalidArgumentError)
          else Inl InvalidArgumentError)"

text \<open>
  The loop \<^verbatim>\<open>for i, op_name in enumerate(self.op_names)\<close> that profiles each operation
  on \<^verbatim>\<open>[1] + list(input_shape[1:])\<close> and stores the count.
\<close>

fun assign_costs ::
  "('op, 'opt, 'w) ext \<Rightarrow> 'op MixedModuleTf \<Rightarrow> handle \<Rightarrow> nat \<Rightarrow> string list \<Rightarrow> nat list \<Rightarrow>
   store \<Rightarrow> error + store" where
  "assign_costs E m cost i [] input_shape s = Inr s"
| "assign_costs E m cost i (op_name # names) input_shape s =
     (case get_module m op_name of
        Inl e \<Rightarrow> Inl e
      | Inr layer \<Rightarrow>
          let flops = get_flops_inputs E layer (1 # drop 1 input_shape) in
          (case s cost of
             None \<Rightarrow> Inl InvalidArgumentError
           | Some t \<Rightarrow>
               (case slice_assign t 0 i (of_int flops) of
                  Inl e \<Rightarrow> Inl e
                | Inr t' \<Rightarrow> assign_costs E m cost (Suc i) names input_shape (assign cost t' s))))"

definition build ::
  "('op, 'opt, 'w) ext \<Rightarrow> 'op MixedModuleTf \<Rightarrow> nat list \<Rightarrow> ('op, 'opt, 'w) state \<Rightarrow>
   error + ('op MixedModuleTf \<times> ('op, 'opt, 'w) state)" where
  "build E m input_shape st =
     (let n = length (op_names m);
          (temperature, st1) = add_weight (Sc 1) st;
          (cost, st2) = add_weight (Tn [Tn (replicate n (Sc 0))]) st1;
          (arch, st3) = add_weight (Tn (replicate n (Sc 1))) st2;
          m1 = m\<lparr>gumbel_temperature := Some temperature, ops_cost_static := Some cost,
                 gumble_arch_params := Some arch, gumbel_dist := Some (arch, temperature)\<rparr>
      in case build_ops E m1 (op_names m1) input_shape st3 of
           Inl e \<Rightarrow> Inl e
         | Inr st4 \<Rightarrow>
             let m2 = m1\<lparr>built := True\<rparr> in
             (case assign_costs E m2 cost 0 (op_names m2) input_shape (vars st4) of
                Inl e \<Rightarrow> Inl e
              | Inr s \<Rightarrow> Inr (m2, st4\<lparr>vars := s\<rparr>)))"

subsection \<open>MixedModuleTf.call\<close>

text \<open>
  The loop that runs every candidate operation on \<^verbatim>\<open>inp\<close>, returning each operation
  with its output.
\<close>

fun call_ops ::
  "('op, 'opt, 'w) ext \<Rightarrow> 'op MixedModuleTf \<Rightarrow> string list \<Rightarrow> store \<Rightarrow> real tensor \<Rightarrow>
   error + ('op \<times> real tensor) list" where
  "call_ops E m [] s inp = Inr []"
| "call_ops E m (name # names) s inp =
     (case get_module m name of
        Inl e \<Rightarrow> Inl e
      | Inr layer \<Rightarrow>
          (case call_ops E m names s inp of
             Inl e \<Rightarrow> Inl e
           | Inr outs \<Rightarrow> Inr ((layer, op_call E layer s inp) # outs)))"

text \<open>
  The distribution object holds the two variables it was constructed with; their values
  are read when \<^verbatim>\<open>sample\<close> runs (TensorFlow Probability converts a variable parameter
  to a tensor inside each method call). \<^verbatim>\<open>tf.shape(inp)[0]\<close> needs an input of rank at
  least one. The output is returned; the cost loss is appended to the registered losses.
\<close>

definition call ::
  "('op, 'opt, 'w) ext \<Rightarrow> 'op MixedModuleTf \<Rightarrow> real tensor \<Rightarrow> ('op, 'opt, 'w) state \<Rightarrow>
   error + (real tensor \<times> ('op, 'opt, 'w) state)" where
  "call E m inp st =
     (case inp of
        Sc _ \<Rightarrow> Inl InvalidArgumentError
      | Tn examples \<Rightarrow>
     (case gumbel_dist m of
        None \<Rightarrow> Inl AttributeError
      | Some (logits_var, temperature_var) \<Rightarrow>
     (case vars st logits_var of None \<Rightarrow> Inl InvalidArgumentError | Some logits \<Rightarrow>
     (case vars st temperature_var of None \<Rightarrow> Inl InvalidArgumentError | Some temperature \<Rightarrow>
        let batch_size = length examples;
            (gumbel_weights, w) = sample E (world st) temperature logits batch_size
        in
     (case call_ops E m (op_names m) (vars st) inp of Inl e \<Rightarrow> Inl e | Inr outs \<Rightarrow>
     (case stack_axis1 (map snd outs) of Inl e \<Rightarrow> Inl e | Inr concat_outputs \<Rightarrow>
     (case reshape_weights gumbel_weights (length (shape concat_outputs) - 2) of
        Inl e \<Rightarrow> Inl e | Inr reshaped_gumbel_weights \<Rightarrow>
     (case broadcast_mul reshaped_gumbel_weights concat_outputs of
        Inl e \<Rightarrow> Inl e | Inr weighted_outputs \<Rightarrow>
        let output = reduce_sum_axis1 weighted_outputs in
     (case ops_cost_static m of None \<Rightarrow> Inl AttributeError | Some cost_var \<Rightarrow>
     (case vars st cost_var of None \<Rightarrow> Inl InvalidArgumentError | Some ops_cost \<Rightarrow>
     (case broadcast_mul ops_cost gumbel_weights of Inl e \<Rightarrow> Inl e | Inr cost \<Rightarrow>
        let cost_loss =
              reduce_mean (reduce_sum_axis1 (tmul cost (Sc (cost_loss_multiplier m))))
        in Inr (output,
                st\<lparr>losses := losses st @ [cost_loss],
                   world := w,
                   trace := trace st @ Sampled temperature logits batch_size
                              # map (\<lambda>(layer, _). OpCalled layer inp) outs\<rparr>))))))))))))"

subsection \<open>NasModel.call and NasModel.train_step\<close>

text \<open>
  The forward pass of the wrapped chain: a mixture layer runs \<^const>\<open>call\<close>, any other
  layer its own forward computation.
\<close>

fun forward ::
  "('op, 'opt, 'w) ext \<Rightarrow> 'op network \<Rightarrow> real tensor \<Rightarrow> ('op, 'opt, 'w) state \<Rightarrow>
   error + (real tensor \<times> ('op, 'opt, 'w) state)" where
  "forward E [] inp st = Inr (inp, st)"
| "forward E (Other layer # ms) inp st =
     forward E ms (op_call E layer (vars st) inp) (st\<lparr>trace := trace st @ [OpCalled layer inp]\<rparr>)"
| "forward E (Mixed m # ms) inp st =
     (case call E m inp st of
        Inl e \<Rightarrow> Inl e
      | Inr (out, st') \<Rightarrow> forward E ms out st')"

text \<open>
  \<^verbatim>\<open>self(x, training=True)\<close>: Keras drops the losses registered by the previous pass and
  runs \<^verbatim>\<open>NasModel.call\<close>, which is \<^verbatim>\<open>self.mod(inp)\<close>.
\<close>

definition NasModel_call ::
  "('op, 'opt, 'w) ext \<Rightarrow> ('op, 'opt) NasModel \<Rightarrow> real tensor \<Rightarrow> ('op, 'opt, 'w) state \<Rightarrow>
   error + (real tensor \<times> ('op, 'opt, 'w) state)" where
  "NasModel_call E nm inp st = forward E (mod_net nm) inp (st\<lparr>losses := []\<rparr>)"

text \<open>
  \<^verbatim>\<open>train_step\<close>. The attributes set by \<^verbatim>\<open>compile\<close> must exist. The tape records the
  forward pass and the loss, run from the variables and library state at entry.
  \<^verbatim>\<open>gradients[0:n]\<close> and \<^verbatim>\<open>gradients[n:]\<close> are \<open>take n\<close> and \<open>drop n\<close>; \<^verbatim>\<open>zip\<close> stops at
  the shorter list. With \<^verbatim>\<open>slow_assert\<close> the two identity checks run.
\<close>

definition train_step ::
  "('op, 'opt, 'w) ext \<Rightarrow> ('op, 'opt) NasModel \<Rightarrow> real tensor \<times> real tensor \<Rightarrow> bool \<Rightarrow>
   ('op, 'opt, 'w) state \<Rightarrow> error + ((string \<times> real) list \<times> ('op, 'opt, 'w) state)" where
  "train_step E nm data slow_assert st =
     (let (x, y) = data in
     (case NasModel_call E nm x st of Inl e \<Rightarrow> Inl e | Inr (y_pred, st1) \<Rightarrow>
        let loss = compiled_loss E y y_pred (losses st1) in
     (case concat_params nm of None \<Rightarrow> Inl AttributeError | Some concat_vars \<Rightarrow>
        let gradients = tape_gradient E (vars st) (world st) x y loss concat_vars in
     (case non_arch_params nm of None \<Rightarrow> Inl AttributeError | Some non_arch \<Rightarrow>
        let non_arch_gradients = take (length non_arch) gradients;
            arch_gradients = drop (length non_arch) gradients
        in
     (case arch_params nm of None \<Rightarrow> Inl AttributeError | Some arch \<Rightarrow>
        if slow_assert
           \<and> \<not> (list_all (\<lambda>(first, second). first = second)
                    (zip non_arch (take (length non_arch) concat_vars))
                \<and> list_all (\<lambda>(first, second). first = second)
                    (zip arch (drop (length non_arch) concat_vars)))
        then Inl AssertionError
        else
     (case optimizer nm of None \<Rightarrow> Inl AttributeError | Some opt \<Rightarrow>
        let non_arch_pairs = zip non_arch_gradients non_arch;
            (s2, w2) = apply_gradients E opt non_arch_pairs (vars st1, world st1)
        in
     (case arch_optimizer nm of None \<Rightarrow> Inl AttributeError | Some arch_opt \<Rightarrow>
        let arch_pairs = zip arch_gradients arch;
            (s3, w3) = apply_gradients E arch_opt arch_pairs (s2, w2);
            w4 = update_metrics E y y_pred w3
        in Inr (metrics_result E w4,
                st1\<lparr>vars := s3, world := w4,
                    trace := trace st1 @ [GradientCalled loss concat_vars,
                                          GradientsApplied opt non_arch_pairs,
                                          GradientsApplied arch_opt arch_pairs]\<rparr>))))))))"

subsection \<open>Auxiliary notions used in the statements\<close>




text \<open>The current entries of a layer's preference vector (empty when it has none).\<close>

definition preference_vector :: "store \<Rightarrow> 'op MixedModuleTf \<Rightarrow> real list" where
  "preference_vector s m =
     (case gumble_arch_params m of
        None \<Rightarrow> []
      | Some h \<Rightarrow> (case s h of None \<Rightarrow> [] | Some t \<Rightarrow> (case vector_of t of None \<Rightarrow> [] | Some xs \<Rightarrow> xs)))"

text \<open>
  A batch-by-operations table of weights as a tensor of rank two, and a tensor with every
  entry multiplied by a number.
\<close>

definition matrix :: "real list list \<Rightarrow> real tensor" where
  "matrix W = Tn (map (\<lambda>row. Tn (map Sc row)) W)"


text \<open>The events a forward pass records: draws and forward computations.\<close>

fun forward_event :: "('op, 'opt) event \<Rightarrow> bool" where
  "forward_event (Sampled _ _ _) = True"
| "forward_event (OpCalled _ _) = True"
| "forward_event (GradientCalled _ _) = False"
| "forward_event (GradientsApplied _ _) = False"

text \<open>
  A sequence of calls made after a layer is built: forward passes of mixture layers and
  training steps of models, run one after the other. And the contract of an optimizer
  that C9 relies on: \<^verbatim>\<open>apply_gradients\<close> writes no variable other than those it is given.
\<close>

datatype ('op, 'opt) step =
    Forward "'op MixedModuleTf" "real tensor"
  | TrainStep "('op, 'opt) NasModel" "real tensor \<times> real tensor" bool

fun run_steps ::
  "('op, 'opt, 'w) ext \<Rightarrow> ('op, 'opt) step list \<Rightarrow> ('op, 'opt, 'w) state \<Rightarrow>
   error + ('op, 'opt, 'w) state" where
  "run_steps E [] st = Inr st"
| "run_steps E (Forward m inp # rest) st =
     (case call E m inp st of Inl e \<Rightarrow> Inl e | Inr (_, st') \<Rightarrow> run_steps E rest st')"
| "run_steps E (TrainStep nm data slow_assert # rest) st =
     (case train_step E nm data slow_assert st of
        Inl e \<Rightarrow> Inl e
      | Inr (_, st') \<Rightarrow> run_steps E rest st')"

definition writes_only_given :: "('op, 'opt, 'w) ext \<Rightarrow> bool" where
  "writes_only_given E \<longleftrightarrow>
     (\<forall>opt pairs s w h. h \<notin> snd ` set pairs \<longrightarrow> fst (apply_gradients E opt pairs (s, w)) h = s h)"

subsection \<open>Concrete configurations used in the examples\<close>

text \<open>A built three-operation layer whose variables sit at handles 0, 1 and 2.\<close>

definition example_layer :: "nat MixedModuleTf" where
  "example_layer =
     \<lparr>sublayers = [(''0'', 10), (''1'', 11), (''2'', 12)],
      op_names = [''0'', ''1'', ''2''],
      cost_loss_multiplier = 0,
      built = True,
      gumbel_temperature = Some 0,
      ops_cost_static = Some 1,
      gumble_arch_params = Some 2,
      gumbel_dist = Some (2, 0)\<rparr>"


text \<open>A network of three modules, the second one the built mixture layer.\<close>

definition example_network :: "nat network" where
  "example_network = [Other 20, Mixed example_layer, Other 21]"

text \<open>
  A store for the example layer: temperature 1, costs 100, 200 and 400, preference vector
  \<open>[1, 1, 4]\<close>; and the watcher constructed for the one-layer network.
\<close>

definition example_store :: store where
  "example_store =
     [0 \<mapsto> Sc 1, 1 \<mapsto> Tn [Tn [Sc 100, Sc 200, Sc 400]], 2 \<mapsto> Tn [Sc 1, Sc 1, Sc 4]]"

definition example_watcher :: SupernetArchWatcherCallback where
  "example_watcher = \<lparr>w_gumbel_arch_params = [2], w_op_names = [[''0'', ''1'', ''2'']]\<rparr>"

text \<open>
  Libraries for the examples: an operation \<open>k\<close> multiplies its input by \<open>k\<close>, the sampler
  returns the weights \<open>1/2, 1/4, 1/4\<close> for every example, a gradient is the variable's
  own value, an optimizer stores each gradient in its variable. The state holds the
  example store; the input is a batch of two examples.
\<close>

definition example_ext :: "(nat, string, nat) ext" where
  "example_ext =
     \<lparr>op_call = (\<lambda>layer s inp. tmul (Sc (of_nat layer)) inp),
      op_build = (\<lambda>layer input_shape. []),
      get_flops_inputs = (\<lambda>layer input_shape. int layer * int (length input_shape)),
      sample = (\<lambda>w temperature logits n. (matrix (replicate n [1 / 2, 1 / 4, 1 / 4]), Suc w)),
      compiled_loss = (\<lambda>y y_pred reg. if NaN \<in> set reg then NaN else Num 0),
      tape_gradient = (\<lambda>s w x y loss sources. map (\<lambda>h. s h) sources),
      apply_gradients = (\<lambda>opt pairs (s, w). (fold (\<lambda>(g, h) s. s(h := g)) pairs s, Suc w)),
      update_metrics = (\<lambda>y y_pred w. w),
      metrics_result = (\<lambda>w. [])\<rparr>"

definition example_state :: "(nat, string, nat) state" where
  "example_state = \<lparr>vars = example_store, next_handle = 3, losses = [], world = 0, trace = []\<rparr>"

definition example_input :: "real tensor" where
  "example_input = Tn [Tn [Sc 1, Sc 2], Tn [Sc 3, Sc 4]]"



text \<open>
  The example network compiled with trainable variables 5, 2 and 6, and the state after
  one training step from the example state.
\<close>

definition example_model :: "(nat, string) NasModel" where
  "example_model =
     \<lparr>mod_net = example_network, trainable_variables = [5, 2, 6],
      optimizer = Some ''sgd'', arch_optimizer = Some ''adam'', arch_params = Some [2],
      non_arch_params = Some [5, 6], concat_params = Some [5, 6, 2]\<rparr>"

definition example_state_trained :: "(nat, string, nat) state" where
  "example_state_trained =
     \<lparr>vars = example_store, next_handle = 3, losses = [Num 0], world = 3,
      trace = [OpCalled 20 example_input,
               Sampled (Sc 1) (Tn [Sc 1, Sc 1, Sc 4]) 2,
               OpCalled 10 (Tn [Tn [Sc 20, Sc 40], Tn [Sc 60, Sc 80]]),
               OpCalled 11 (Tn [Tn [Sc 20, Sc 40], Tn [Sc 60, Sc 80]]),
               OpCalled 12 (Tn [Tn [Sc 20, Sc 40], Tn [Sc 60, Sc 80]]),
               OpCalled 21 (Tn [Tn [Sc 215, Sc 430], Tn [Sc 645, Sc 860]]),
               GradientCalled (Num 0) [5, 6, 2],
               GradientsApplied ''sgd'' [(None, 5), (None, 6)],
               GradientsApplied ''adam'' [(Some (Tn [Sc 1, Sc 1, Sc 4]), 2)]]\<rparr>"

text \<open>The example layer as constructed, before it is built, and the empty initial state.\<close>

definition example_layer_unbuilt :: "nat MixedModuleTf" where
  "example_layer_unbuilt =
     \<lparr>sublayers = [(''0'', 10), (''1'', 11), (''2'', 12)],
      op_names = [''0'', ''1'', ''2''], cost_loss_multiplier = 0,
      built = False, gumbel_temperature = None, ops_cost_static = None,
      gumble_arch_params = None, gumbel_dist = None\<rparr>"

definition example_state0 :: "(nat, string, nat) state" where
  "example_state0 = \<lparr>vars = Map.empty, next_handle = 0, losses = [], world = 0, trace = []\<rparr>"

section \<open>Properties\<close>

subsection \<open>Temperature schedule\<close>




lemma init_fields:
  assumes "SupernetTemperatureCallback_init model se fe st et = Inr cb"
  shows "collect_temperature model = Inr (temperature_variables cb)"
    and "start_epoch cb = se" and "final_epoch cb = fe"
    and "start_temp cb = st" and "end_temp cb = et" and "et < st"
  using assms
  by (auto simp: SupernetTemperatureCallback_init_def split: sum.splits if_splits)







text \<open>
  C10. For a network whose mixture layers are all built, construction of the scheduler
  succeeds exactly when \<open>start_temp > end_temp\<close>, whatever the two epoch bounds are; and a
  scheduler constructed with \<open>final_epoch = start_epoch\<close> raises ZeroDivisionError at every
  epoch hook, for every epoch and every store.
\<close>

theorem equal_epochs_divide_by_zero:
  assumes built: "collect_temperature model = Inr hs"
  shows "((\<exists>cb. SupernetTemperatureCallback_init model se fe st et = Inr cb) \<longleftrightarrow> st > et)
       \<and> (st > et \<longrightarrow> (\<exists>cb. SupernetTemperatureCallback_init model e e st et = Inr cb))
       \<and> (\<forall>cb. SupernetTemperatureCallback_init model e e st et = Inr cb \<longrightarrow>
              (\<forall>E s. on_epoch_begin cb E s = Inl ZeroDivisionError))"
proof -
  have a: "(\<exists>cb. SupernetTemperatureCallback_init model se' fe' st et = Inr cb) \<longleftrightarrow> st > et"
    for se' fe'
    using built by (simp add: SupernetTemperatureCallback_init_def)
  have c: "on_epoch_begin cb E s = Inl ZeroDivisionError"
    if "SupernetTemperatureCallback_init model e e st et = Inr cb" for cb E s
    using init_fields(2,3) [OF that]
    by (simp add: on_epoch_begin_def epoch_temperature_def)
  show ?thesis using a c by blast
qed

theorem equal_epochs_divide_by_zero_witness:
  "collect_temperature [Mixed example_layer] = Inr [0]
   \<and> (\<exists>cb. SupernetTemperatureCallback_init [Mixed example_layer] 7 7 5 (1 / 10) = Inr cb
          \<and> on_epoch_begin cb 3 Map.empty = Inl ZeroDivisionError)"
proof -
  have b: "collect_temperature [Mixed example_layer] = Inr [0]"
    by (simp add: example_layer_def)
  have gt: "(5::real) > 1 / 10" by simp
  from equal_epochs_divide_by_zero [OF b, of 7 7 5 "1 / 10" 7] gt
  show ?thesis using b by blast
qed

subsection \<open>Construction of a mixture layer\<close>




lemma update_fresh: "k \<notin> fst ` set al \<Longrightarrow> AList.update k v al = al @ [(k, v)]"
  by (induction al) auto



lemma fold_update_keys_distinct:
  "distinct (map fst acc) \<Longrightarrow> distinct (map fst (fold (\<lambda>(k, v). AList.update k v) ps acc))"
  by (induction ps arbitrary: acc) (auto simp: distinct_update)

lemma py_dict_keys_distinct: "distinct (map fst (py_dict ps))"
  by (simp add: py_dict_def fold_update_keys_distinct)







subsection \<open>Partition of the trainable variables\<close>

lemma collect_arch_params_spec:
  "collect_arch_params net = Inr ap \<Longrightarrow>
   map Some ap = map gumble_arch_params [m. Mixed m \<leftarrow> net]
   \<and> (\<forall>m. Mixed m \<in> set net \<longrightarrow> built m)"
proof (induction net arbitrary: ap)
  case Nil
  then show ?case by simp
next
  case (Cons a ms)
  show ?case
  proof (cases a)
    case (Other x)
    with Cons show ?thesis by auto
  next
    case (Mixed m')
    with Cons.prems obtain h' hs' where
      "built m'" "gumble_arch_params m' = Some h'"
      "collect_arch_params ms = Inr hs'" "ap = h' # hs'"
      by (auto split: if_splits option.splits sum.splits)
    with Cons.IH [of hs'] Mixed show ?thesis by auto
  qed
qed



lemma compile_result:
  "compile nm po ao =
     (case collect_arch_params (mod_net nm) of
        Inl e \<Rightarrow> Inl e
      | Inr ap \<Rightarrow>
          if length (trainable_variables nm) =
               length ap + length (filter (\<lambda>v. v \<notin> set ap) (trainable_variables nm))
          then Inr (nm\<lparr>optimizer := Some po, arch_optimizer := Some ao,
                       arch_params := Some ap,
                       non_arch_params := Some (filter (\<lambda>v. v \<notin> set ap) (trainable_variables nm)),
                       concat_params := Some (filter (\<lambda>v. v \<notin> set ap) (trainable_variables nm) @ ap)\<rparr>)
          else Inl AssertionError)"
proof -
  have "(\<lambda>v. \<not> list_ex (\<lambda>arch_param. v = arch_param) ap) = (\<lambda>v. v \<notin> set ap)" for ap :: "handle list"
    by (auto simp: list_ex_iff)
  then show ?thesis
    by (simp add: compile_def Let_def split: sum.splits)
qed


lemma example_collect: "collect_arch_params example_network = Inr [2]"
  by (simp add: example_network_def example_layer_def)


subsection \<open>Genotype report\<close>

lemma e_bounds: "2718 / 1000 < exp (1::real)" "exp (1::real) < 2719 / 1000"
proof -
  obtain t :: real where t: "\<bar>t\<bar> \<le> \<bar>1\<bar>"
    and e: "exp (1::real) = (\<Sum>m<7. (1 ^ m) / fact m) + (exp t / fact 7) * 1 ^ 7"
    using Maclaurin_exp_le [of 1 7] by blast
  have s: "(\<Sum>m<7. ((1::real) ^ m) / fact m) = 1957 / 720"
    by (simp add: lessThan_nat_numeral fact_numeral lessThan_Suc)
  have "exp t \<le> exp (1::real)" using t by simp
  also have "\<dots> \<le> 3" by (rule exp_le)
  finally have up: "exp t \<le> 3" .
  have lo: "0 < exp t" by simp
  have f: "fact 7 = (5040::real)" by (simp add: fact_numeral)
  have eq: "exp (1::real) = 1957 / 720 + exp t / 5040" using e s f by simp
  show "2718 / 1000 < exp (1::real)" using eq lo by linarith
  show "exp (1::real) < 2719 / 1000" using eq up by linarith
qed

lemma exp3_bounds: "20079 / 1000 < exp (3::real)" "exp (3::real) < 20102 / 1000"
proof -
  have e3: "exp (3::real) = exp 1 ^ 3"
    using exp_of_nat_mult [of 3 "1::real"] by simp
  have lo: "(2718 / 1000) ^ 3 < exp (1::real) ^ 3"
    using e_bounds(1) by (intro power_strict_mono) simp_all
  have up: "exp (1::real) ^ 3 < (2719 / 1000) ^ 3"
    using e_bounds(2) by (intro power_strict_mono) simp_all
  have a: "(20079 / 1000 :: real) < (2718 / 1000) ^ 3" by (simp add: power3_eq_cube)
  have b: "((2719 / 1000) ^ 3 :: real) < 20102 / 1000" by (simp add: power3_eq_cube)
  show "20079 / 1000 < exp (3::real)" using e3 lo a by linarith
  show "exp (3::real) < 20102 / 1000" using e3 up b by linarith
qed

lemma collect_watched_spec:
  "collect_watched model = Inr (hs, ns) \<Longrightarrow>
   zip ns (map Some hs) = map (\<lambda>m. (op_names m, gumble_arch_params m)) [m. Mixed m \<leftarrow> model]
   \<and> length ns = length hs"
proof (induction model arbitrary: hs ns)
  case Nil
  then show ?case by simp
next
  case (Cons a ms)
  show ?case
  proof (cases a)
    case (Other x)
    with Cons show ?thesis by auto
  next
    case (Mixed m')
    with Cons.prems obtain h' hs' ns' where
      "gumble_arch_params m' = Some h'"
      "collect_watched ms = Inr (hs', ns')" "hs = h' # hs'" "ns = op_names m' # ns'"
      by (auto split: if_splits option.splits sum.splits prod.splits)
    with Cons.IH [of hs' ns'] Mixed show ?thesis by auto
  qed
qed

lemma make_gene_zip_aux:
  "distinct (map fst gene @ names) \<Longrightarrow> i + length names \<le> length probs \<Longrightarrow>
   make_gene names i probs gene = Inr (gene @ zip names (drop i probs))"
proof (induction names arbitrary: i gene)
  case Nil
  then show ?case by simp
next
  case (Cons n ns)
  have i: "i < length probs" using Cons.prems(2) by simp
  have fresh: "n \<notin> fst ` set gene" using Cons.prems(1) by auto
  have d: "distinct (map fst (gene @ [(n, probs ! i)]) @ ns)" using Cons.prems(1) by auto
  have "make_gene (n # ns) i probs gene =
        make_gene ns (Suc i) probs (gene @ [(n, probs ! i)])"
    using i by (simp add: update_fresh [OF fresh])
  also have "\<dots> = Inr ((gene @ [(n, probs ! i)]) @ zip ns (drop (Suc i) probs))"
    using Cons.prems(2) by (intro Cons.IH [OF d]) simp
  also have "(gene @ [(n, probs ! i)]) @ zip ns (drop (Suc i) probs) =
             gene @ zip (n # ns) (drop i probs)"
    using i by (simp add: Cons_nth_drop_Suc [symmetric])
  finally show ?case .
qed

lemma make_gene_zip:
  "distinct names \<Longrightarrow> length names \<le> length probs \<Longrightarrow>
   make_gene names 0 probs [] = Inr (zip names probs)"
  using make_gene_zip_aux [of "[]" names 0 probs] by simp

lemma length_softmax [simp]: "length (softmax xs) = length xs"
  by (simp add: softmax_def)

lemma sum_list_softmax: "xs \<noteq> [] \<Longrightarrow> sum_list (softmax xs) = 1"
proof -
  assume ne: "xs \<noteq> []"
  have pos: "0 < sum_list (map exp xs)"
  proof -
    obtain y ys where xs: "xs = y # ys" using ne by (cases xs) auto
    have "0 \<le> sum_list (map exp ys)" by (rule sum_list_nonneg) auto
    moreover have "0 < exp y" by simp
    ultimately show ?thesis by (simp add: xs add_pos_nonneg)
  qed
  have "(\<Sum>x\<leftarrow>ys. exp x / c) = (\<Sum>x\<leftarrow>ys. exp x) / c" for ys :: "real list" and c :: real
    by (induction ys) (simp_all add: add_divide_distrib)
  then have "sum_list (softmax xs) = sum_list (map exp xs) / sum_list (map exp xs)"
    by (simp add: softmax_def o_def)
  then show ?thesis using pos by simp
qed

lemma make_genotype_spec:
  assumes "\<forall>m \<in> set ms. distinct (op_names m)
             \<and> (\<exists>h t xs. gumble_arch_params m = Some h \<and> s h = Some t
                   \<and> vector_of t = Some xs \<and> length xs = length (op_names m))"
    and "zip ns (map Some hs) = map (\<lambda>m. (op_names m, gumble_arch_params m)) ms"
    and "length ns = length hs"
  shows "make_genotype (zip ns hs) s =
         Inr (map (\<lambda>m. zip (op_names m) (softmax (preference_vector s m))) ms)"
  using assms
proof (induction ms arbitrary: ns hs)
  case Nil
  then show ?case by (cases ns; cases hs) simp_all
next
  case (Cons m ms)
  from Cons.prems(2,3) obtain n ns' h hs' where
    ns: "ns = n # ns'" and hs: "hs = h # hs'"
    by (cases ns; cases hs) simp_all
  from Cons.prems(2) have n: "n = op_names m" and h: "gumble_arch_params m = Some h"
    and rest: "zip ns' (map Some hs') = map (\<lambda>m. (op_names m, gumble_arch_params m)) ms"
    by (simp_all add: ns hs)
  from Cons.prems(1) h obtain t xs where
    d: "distinct (op_names m)" and t: "s h = Some t" and xs: "vector_of t = Some xs"
    and len: "length xs = length (op_names m)"
    by auto
  have pv: "preference_vector s m = xs"
    by (simp add: preference_vector_def h t xs)
  have gene: "make_gene (op_names m) 0 (softmax xs) [] = Inr (zip (op_names m) (softmax xs))"
    using d len by (intro make_gene_zip) simp_all
  have ih: "make_genotype (zip ns' hs') s =
            Inr (map (\<lambda>m. zip (op_names m) (softmax (preference_vector s m))) ms)"
    using Cons.prems(1,3) rest by (intro Cons.IH) (simp_all add: ns hs)
  show ?case
    by (simp add: ns hs n t xs gene ih pv)
qed

text \<open>
  C7. For a watcher constructed for a network whose mixture layers have distinct operation
  names and hold a preference vector with one entry per name, the epoch-end hook returns
  the store unchanged and reports, tagged with the epoch, one mapping per mixture layer
  in discovery order, pairing the \<open>i\<close>-th operation name with the \<open>i\<close>-th entry of the
  softmax of the current preference vector; the probabilities of a layer sum to 1. For
  the preference vector \<open>[1, 1, 4]\<close> the softmax is within \<open>0.0002\<close> of
  \<open>[0.0452, 0.0452, 0.9096]\<close>.
\<close>

theorem genotype_report:
  assumes init: "SupernetArchWatcherCallback_init model = Inr w"
    and vals: "\<forall>m. Mixed m \<in> set model \<longrightarrow> distinct (op_names m)
             \<and> (\<exists>h t xs. gumble_arch_params m = Some h \<and> s h = Some t
                   \<and> vector_of t = Some xs \<and> length xs = length (op_names m))"
  shows "\<exists>g. on_epoch_end w E s = Inr (s, E, g)
           \<and> g = map (\<lambda>m. zip (op_names m) (softmax (preference_vector s m)))
                     [m. Mixed m \<leftarrow> model]
           \<and> (\<forall>gene \<in> set g. gene \<noteq> [] \<longrightarrow> sum_list (map snd gene) = 1)
           \<and> \<bar>softmax [1, 1, 4] ! 0 - 452 / 10000\<bar> < 2 / 10000
           \<and> \<bar>softmax [1, 1, 4] ! 1 - 452 / 10000\<bar> < 2 / 10000
           \<and> \<bar>softmax [1, 1, 4] ! 2 - 9096 / 10000\<bar> < 2 / 10000"
proof -
  let ?ms = "[m. Mixed m \<leftarrow> model]"
  let ?g = "map (\<lambda>m. zip (op_names m) (softmax (preference_vector s m))) ?ms"
  from init obtain hs ns where
    c: "collect_watched model = Inr (hs, ns)" and
    w: "w = \<lparr>w_gumbel_arch_params = hs, w_op_names = ns\<rparr>"
    by (auto simp: SupernetArchWatcherCallback_init_def split: sum.splits prod.splits)
  note spec = collect_watched_spec [OF c]
  have mem: "Mixed m \<in> set model" if "m \<in> set ?ms" for m
    using that by (auto split: module.splits)
  have v: "\<forall>m \<in> set ?ms. distinct (op_names m)
             \<and> (\<exists>h t xs. gumble_arch_params m = Some h \<and> s h = Some t
                   \<and> vector_of t = Some xs \<and> length xs = length (op_names m))"
    using vals mem by blast
  have "make_genotype (zip ns hs) s = Inr ?g"
    using v spec by (intro make_genotype_spec) simp_all
  then have run: "on_epoch_end w E s = Inr (s, E, ?g)"
    by (simp add: on_epoch_end_def w)
  have one: "sum_list (map snd gene) = 1" if "gene \<in> set ?g" "gene \<noteq> []" for gene
  proof -
    from that(1) obtain m where m: "m \<in> set ?ms"
      and gene: "gene = zip (op_names m) (softmax (preference_vector s m))" by auto
    from v m obtain h t xs where "gumble_arch_params m = Some h" "s h = Some t"
      "vector_of t = Some xs" and len: "length xs = length (op_names m)" by blast
    then have pv: "preference_vector s m = xs" by (simp add: preference_vector_def)
    have "map snd gene = softmax xs" by (simp add: gene pv len)
    moreover have "xs \<noteq> []" using that(2) gene pv len by auto
    ultimately show ?thesis by (simp add: sum_list_softmax)
  qed
  have e4: "exp (4::real) = exp 1 * exp 3"
    by (simp add: exp_add [symmetric])
  have sm: "softmax [1, 1, 4] = [1 / (2 + exp 3), 1 / (2 + exp 3), exp 3 / (2 + exp 3)]"
  proof -
    have "exp (1::real) + (exp 1 + exp 1 * exp 3) = exp 1 * (2 + exp 3)"
      by (simp add: algebra_simps)
    then show ?thesis by (simp add: softmax_def e4)
  qed
  have pos: "(0::real) < 2 + exp 3" by (simp add: add_pos_pos)
  have p0: "\<bar>1 / (2 + exp (3::real)) - 452 / 10000\<bar> < 2 / 10000"
  proof -
    have "450 / 10000 < 1 / (2 + exp (3::real))"
      using exp3_bounds(2) pos by (simp add: less_divide_eq) 
    moreover have "1 / (2 + exp (3::real)) < 454 / 10000"
      using exp3_bounds(1) pos by (simp add: divide_less_eq)
    ultimately show ?thesis by linarith
  qed
  have p2: "\<bar>exp (3::real) / (2 + exp 3) - 9096 / 10000\<bar> < 2 / 10000"
  proof -
    have "9094 / 10000 < exp (3::real) / (2 + exp 3)"
      using exp3_bounds(1) pos by (simp add: less_divide_eq)
    moreover have "exp (3::real) / (2 + exp 3) < 9098 / 10000"
      using exp3_bounds(2) pos by (simp add: divide_less_eq)
    ultimately show ?thesis by linarith
  qed
  show ?thesis
    using run one p0 p2 by (intro exI [of _ ?g]) (simp add: sm)
qed

theorem genotype_report_witness:
  "SupernetArchWatcherCallback_init [Mixed example_layer] = Inr example_watcher
   \<and> on_epoch_end example_watcher 3 example_store =
       Inr (example_store, 3, [zip [''0'', ''1'', ''2''] (softmax [1, 1, 4])])
   \<and> sum_list (softmax [1, 1, 4]) = 1
   \<and> \<bar>softmax [1, 1, 4] ! 0 - 452 / 10000\<bar> < 2 / 10000
   \<and> \<bar>softmax [1, 1, 4] ! 1 - 452 / 10000\<bar> < 2 / 10000
   \<and> \<bar>softmax [1, 1, 4] ! 2 - 9096 / 10000\<bar> < 2 / 10000"
proof -
  have init: "SupernetArchWatcherCallback_init [Mixed example_layer] = Inr example_watcher"
    by (simp add: SupernetArchWatcherCallback_init_def example_layer_def example_watcher_def)
  have vals: "\<forall>m. Mixed m \<in> set [Mixed example_layer] \<longrightarrow> distinct (op_names m)
             \<and> (\<exists>h t xs. gumble_arch_params m = Some h \<and> example_store h = Some t
                   \<and> vector_of t = Some xs \<and> length xs = length (op_names m))"
    by (simp add: example_layer_def example_store_def)
  have pv: "preference_vector example_store example_layer = [1, 1, 4]"
    by (simp add: preference_vector_def example_layer_def example_store_def)
  have names: "op_names example_layer = [''0'', ''1'', ''2'']"
    by (simp add: example_layer_def)
  from genotype_report [OF init vals, of 3]
  have "on_epoch_end example_watcher 3 example_store =
          Inr (example_store, 3, [zip [''0'', ''1'', ''2''] (softmax [1, 1, 4])])
        \<and> \<bar>softmax [1, 1, 4] ! 0 - 452 / 10000\<bar> < 2 / 10000
        \<and> \<bar>softmax [1, 1, 4] ! 1 - 452 / 10000\<bar> < 2 / 10000
        \<and> \<bar>softmax [1, 1, 4] ! 2 - 9096 / 10000\<bar> < 2 / 10000"
    by (simp add: pv names)
  moreover have "sum_list (softmax [1, 1, 4]) = 1"
    by (rule sum_list_softmax) simp
  ultimately show ?thesis using init by blast
qed

subsection \<open>Forward pass of a mixture layer\<close>

lemma call_Inr:
  assumes "call E m inp st = Inr (out, st')"
  obtains examples lv tv logits temperature gw w outs concat_outputs reshaped weighted
          cv ops_cost cost where
    "inp = Tn examples" "gumbel_dist m = Some (lv, tv)"
    "vars st lv = Some logits" "vars st tv = Some temperature"
    "sample E (world st) temperature logits (length examples) = (gw, w)"
    "call_ops E m (op_names m) (vars st) inp = Inr outs"
    "stack_axis1 (map snd outs) = Inr concat_outputs"
    "reshape_weights gw (length (shape concat_outputs) - 2) = Inr reshaped"
    "broadcast_mul reshaped concat_outputs = Inr weighted"
    "out = reduce_sum_axis1 weighted"
    "ops_cost_static m = Some cv" "vars st cv = Some ops_cost"
    "broadcast_mul ops_cost gw = Inr cost"
    "st' = st\<lparr>losses := losses st @
                  [reduce_mean (reduce_sum_axis1 (tmul cost (Sc (cost_loss_multiplier m))))],
               world := w,
               trace := trace st @ Sampled temperature logits (length examples)
                          # map (\<lambda>(layer, _). OpCalled layer inp) outs\<rparr>"
  using assms unfolding call_def Let_def
  by (auto split: tensor.splits option.splits sum.splits prod.splits)





lemma tmul_scalar_right:
  "tmul (Tn (map Sc xs)) (Sc k) = Tn (map Sc (map (\<lambda>x. x * k) xs))"
  by (simp del: tmul.simps(4))



























subsection \<open>The training step\<close>

lemma call_trace:
  assumes "call E m inp st = Inr (out, st')"
  shows "\<exists>evs. trace st' = trace st @ evs \<and> list_all forward_event evs"
proof -
  from assms obtain examples lv tv logits temperature gw w outs concat_outputs reshaped
      weighted cv ops_cost cost where c:
    "inp = Tn examples" "gumbel_dist m = Some (lv, tv)"
    "vars st lv = Some logits" "vars st tv = Some temperature"
    "sample E (world st) temperature logits (length examples) = (gw, w)"
    "call_ops E m (op_names m) (vars st) inp = Inr outs"
    "stack_axis1 (map snd outs) = Inr concat_outputs"
    "reshape_weights gw (length (shape concat_outputs) - 2) = Inr reshaped"
    "broadcast_mul reshaped concat_outputs = Inr weighted"
    "out = reduce_sum_axis1 weighted"
    "ops_cost_static m = Some cv" "vars st cv = Some ops_cost"
    "broadcast_mul ops_cost gw = Inr cost"
    "st' = st\<lparr>losses := losses st @
                  [reduce_mean (reduce_sum_axis1 (tmul cost (Sc (cost_loss_multiplier m))))],
               world := w,
               trace := trace st @ Sampled temperature logits (length examples)
                          # map (\<lambda>(layer, _). OpCalled layer inp) outs\<rparr>"
    by (rule call_Inr)
  from c(14)
  have "trace st' = trace st @ (Sampled temperature logits (length examples)
                          # map (\<lambda>(layer, _). OpCalled layer inp) outs)"
    by simp
  moreover have "list_all forward_event (Sampled temperature logits (length examples)
                          # map (\<lambda>(layer, _). OpCalled layer inp) outs)"
    by (simp add: list_all_iff split_def)
  ultimately show ?thesis by blast
qed

lemma forward_trace:
  "forward E net inp st = Inr (out, st') \<Longrightarrow>
   \<exists>evs. trace st' = trace st @ evs \<and> list_all forward_event evs"
proof (induction net arbitrary: inp st)
  case Nil
  then show ?case by simp
next
  case (Cons a ms)
  show ?case
  proof (cases a)
    case (Other layer)
    with Cons.prems have
      "forward E ms (op_call E layer (vars st) inp) (st\<lparr>trace := trace st @ [OpCalled layer inp]\<rparr>)
       = Inr (out, st')" by simp
    from Cons.IH [OF this] obtain evs where
      "trace st' = (trace st @ [OpCalled layer inp]) @ evs" "list_all forward_event evs"
      by auto
    then have "trace st' = trace st @ (OpCalled layer inp # evs)
               \<and> list_all forward_event (OpCalled layer inp # evs)" by simp
    then show ?thesis by blast
  next
    case (Mixed m)
    with Cons.prems obtain o1 st1 where
      c: "call E m inp st = Inr (o1, st1)" and f: "forward E ms o1 st1 = Inr (out, st')"
      by (auto split: sum.splits)
    from call_trace [OF c] obtain e1 where
      e1: "trace st1 = trace st @ e1" "list_all forward_event e1" by blast
    from Cons.IH [OF f] obtain e2 where
      e2: "trace st' = trace st1 @ e2" "list_all forward_event e2" by blast
    have "trace st' = trace st @ (e1 @ e2) \<and> list_all forward_event (e1 @ e2)"
      using e1 e2 by simp
    then show ?thesis by blast
  qed
qed

lemma compile_fields:
  assumes "compile nm0 po ao = Inr nm"
  obtains ap nap where "arch_params nm = Some ap" "non_arch_params nm = Some nap"
    "concat_params nm = Some (nap @ ap)" "optimizer nm = Some po" "arch_optimizer nm = Some ao"
    "mod_net nm = mod_net nm0" "trainable_variables nm = trainable_variables nm0"
    "collect_arch_params (mod_net nm0) = Inr ap"
    "nap = filter (\<lambda>v. v \<notin> set ap) (trainable_variables nm0)"
  using assms
  by (auto simp: compile_result split: sum.splits if_splits)

lemma zip_self_all: "list_all (\<lambda>(first, second). first = second) (zip xs xs)"
  by (induction xs) simp_all

lemma split_routing:
  assumes "length gs = length nap + length ap"
  shows "map snd (zip (take (length nap) gs) nap) = nap"
    and "map snd (zip (drop (length nap) gs) ap) = ap"
    and "map fst (zip (take (length nap) gs) nap) @ map fst (zip (drop (length nap) gs) ap) = gs"
proof -
  have a: "length (take (length nap) gs) = length nap" using assms by simp
  have b: "length (drop (length nap) gs) = length ap" using assms by simp
  show "map snd (zip (take (length nap) gs) nap) = nap" using a by (simp add: map_snd_zip)
  show "map snd (zip (drop (length nap) gs) ap) = ap" using b by (simp add: map_snd_zip)
  have "map fst (zip (take (length nap) gs) nap) = take (length nap) gs"
    using a by (simp add: map_fst_zip)
  moreover have "map fst (zip (drop (length nap) gs) ap) = drop (length nap) gs"
    using b by (simp add: map_fst_zip)
  ultimately show "map fst (zip (take (length nap) gs) nap)
      @ map fst (zip (drop (length nap) gs) ap) = gs" by simp
qed

text \<open>
  C1. For a model set up by \<^verbatim>\<open>compile\<close>, and a differentiation engine that returns one
  gradient per listed variable, a successful \<^verbatim>\<open>train_step\<close> does the following. It runs
  the forward pass, which records draws and forward computations only. It differentiates
  once: the loss is the compiled loss of targets, predictions and the losses registered
  during that forward pass, and the variables are the non-architecture parameters
  followed by the architecture parameters. It then applies the first \<open>n\<close> gradients, paired
  in order with the \<open>n\<close> non-architecture parameters, through the primary optimizer, and
  the remaining ones, paired in order with the architecture parameters, through the
  architecture optimizer, each once and in this order; every gradient is routed. The
  resulting variables are those left by the second application. The optional identity
  checks never fail.
\<close>

theorem train_step_routing:
  assumes comp: "compile nm0 po ao = Inr nm"
    and run: "train_step E nm (x, y) slow_assert st = Inr (metrics, st')"
    and tape: "\<And>s w l srcs. length (tape_gradient E s w x y l srcs) = length srcs"
  shows "\<exists>ap nap y_pred st1 loss gradients evs s2 w2 s3 w3.
      arch_params nm = Some ap \<and> non_arch_params nm = Some nap
    \<and> NasModel_call E nm x st = Inr (y_pred, st1)
    \<and> trace st1 = trace st @ evs \<and> list_all forward_event evs
    \<and> loss = compiled_loss E y y_pred (losses st1)
    \<and> gradients = tape_gradient E (vars st) (world st) x y loss (nap @ ap)
    \<and> trace st' = trace st @ evs @
          [GradientCalled loss (nap @ ap),
           GradientsApplied po (zip (take (length nap) gradients) nap),
           GradientsApplied ao (zip (drop (length nap) gradients) ap)]
    \<and> map snd (zip (take (length nap) gradients) nap) = nap
    \<and> map snd (zip (drop (length nap) gradients) ap) = ap
    \<and> map fst (zip (take (length nap) gradients) nap)
        @ map fst (zip (drop (length nap) gradients) ap) = gradients
    \<and> apply_gradients E po (zip (take (length nap) gradients) nap) (vars st1, world st1) = (s2, w2)
    \<and> apply_gradients E ao (zip (drop (length nap) gradients) ap) (s2, w2) = (s3, w3)
    \<and> vars st' = s3 \<and> world st' = update_metrics E y y_pred w3
    \<and> metrics = metrics_result E (world st')
    \<and> train_step E nm (x, y) True st = train_step E nm (x, y) False st"
proof -
  from comp obtain ap nap where f:
    "arch_params nm = Some ap" "non_arch_params nm = Some nap"
    "concat_params nm = Some (nap @ ap)" "optimizer nm = Some po" "arch_optimizer nm = Some ao"
    by (rule compile_fields)
  from run obtain y_pred st1 where fw: "NasModel_call E nm x st = Inr (y_pred, st1)"
    by (auto simp: train_step_def split: sum.splits)
  define loss where "loss = compiled_loss E y y_pred (losses st1)"
  define gradients where "gradients = tape_gradient E (vars st) (world st) x y loss (nap @ ap)"
  define p1 where "p1 = zip (take (length nap) gradients) nap"
  define p2 where "p2 = zip (drop (length nap) gradients) ap"
  obtain s2 w2 where a1: "apply_gradients E po p1 (vars st1, world st1) = (s2, w2)"
    by (cases "apply_gradients E po p1 (vars st1, world st1)")
  obtain s3 w3 where a2: "apply_gradients E ao p2 (s2, w2) = (s3, w3)"
    by (cases "apply_gradients E ao p2 (s2, w2)")
  have checks: "list_all (\<lambda>(first, second). first = second) (zip nap (take (length nap) (nap @ ap)))
      \<and> list_all (\<lambda>(first, second). first = second) (zip ap (drop (length nap) (nap @ ap)))"
    by (simp add: zip_self_all)
  have res: "train_step E nm (x, y) sa st =
      Inr (metrics_result E (update_metrics E y y_pred w3),
           st1\<lparr>vars := s3, world := update_metrics E y y_pred w3,
               trace := trace st1 @ [GradientCalled loss (nap @ ap),
                                     GradientsApplied po p1, GradientsApplied ao p2]\<rparr>)" for sa
    unfolding train_step_def
    using checks a1 a2
    by (simp add: fw f Let_def loss_def [symmetric] gradients_def [symmetric]
        p1_def [symmetric] p2_def [symmetric] del: take_append drop_append)
  from res [of slow_assert] run have m: "metrics = metrics_result E (update_metrics E y y_pred w3)"
    and st': "st' = st1\<lparr>vars := s3, world := update_metrics E y y_pred w3,
               trace := trace st1 @ [GradientCalled loss (nap @ ap),
                                     GradientsApplied po p1, GradientsApplied ao p2]\<rparr>"
    by simp_all
  from fw have "forward E (mod_net nm) x (st\<lparr>losses := []\<rparr>) = Inr (y_pred, st1)"
    by (simp add: NasModel_call_def)
  from forward_trace [OF this] obtain evs where
    evs: "trace st1 = trace st @ evs" "list_all forward_event evs" by auto
  have len: "length gradients = length nap + length ap"
    by (simp add: gradients_def tape)
  note r = split_routing [OF len]
  have tr: "trace st' = trace st @ evs @
          [GradientCalled loss (nap @ ap), GradientsApplied po p1, GradientsApplied ao p2]"
    by (simp add: st' evs)
  show ?thesis
    apply (rule exI [of _ ap], rule exI [of _ nap], rule exI [of _ y_pred], rule exI [of _ st1])
    apply (rule exI [of _ loss], rule exI [of _ gradients], rule exI [of _ evs])
    apply (rule exI [of _ s2], rule exI [of _ w2], rule exI [of _ s3], rule exI [of _ w3])
    using f(1,2) fw evs loss_def gradients_def tr r a1 a2 st' m res [of True] res [of False]
    unfolding p1_def p2_def
    by simp
qed

lemma example_compile:
  "compile (NasModel_init example_network [5, 2, 6]) ''sgd'' ''adam'' = Inr example_model"
  by (simp add: compile_result NasModel_init_def example_collect example_model_def)

lemma example_forward:
  "NasModel_call example_ext example_model example_input example_state =
     Inr (Tn [Tn [Sc 4515, Sc 9030], Tn [Sc 13545, Sc 18060]],
          example_state\<lparr>losses := [Num 0], world := 1,
            trace := [OpCalled 20 example_input,
                      Sampled (Sc 1) (Tn [Sc 1, Sc 1, Sc 4]) 2,
                      OpCalled 10 (Tn [Tn [Sc 20, Sc 40], Tn [Sc 60, Sc 80]]),
                      OpCalled 11 (Tn [Tn [Sc 20, Sc 40], Tn [Sc 60, Sc 80]]),
                      OpCalled 12 (Tn [Tn [Sc 20, Sc 40], Tn [Sc 60, Sc 80]]),
                      OpCalled 21 (Tn [Tn [Sc 215, Sc 430], Tn [Sc 645, Sc 860]])]\<rparr>)"
  by (simp add: NasModel_call_def example_model_def example_network_def
      call_def example_ext_def example_layer_def example_input_def example_state_def
      example_store_def get_module_def stack_axis1_def reshape_weights_def broadcast_mul_def
      compatible_def reduce_sum_axis1_def tsum_def reduce_mean_def matrix_def)

lemma example_store_updates:
  "example_store(5 := None, 6 := None, 2 \<mapsto> Tn [Sc 1, Sc 1, Sc 4]) = example_store"
  by (rule ext) (simp add: example_store_def)

lemma example_train_step:
  "train_step example_ext example_model (example_input, example_input) False example_state =
     Inr ([], example_state_trained)"
proof -
  have ext: "compiled_loss example_ext = (\<lambda>y y_pred reg. if NaN \<in> set reg then NaN else Num 0)"
    "tape_gradient example_ext = (\<lambda>s w x y loss sources. map (\<lambda>h. s h) sources)"
    "apply_gradients example_ext =
       (\<lambda>opt pairs (s, w). (fold (\<lambda>(g, h) s. s(h := g)) pairs s, Suc w))"
    "update_metrics example_ext = (\<lambda>y y_pred w. w)"
    "metrics_result example_ext = (\<lambda>w. [])"
    by (simp_all add: example_ext_def)
  have m: "concat_params example_model = Some [5, 6, 2]"
    "non_arch_params example_model = Some [5, 6]" "arch_params example_model = Some [2]"
    "optimizer example_model = Some ''sgd''" "arch_optimizer example_model = Some ''adam''"
    by (simp_all add: example_model_def)
  have v: "vars example_state = example_store" "world example_state = 0"
    by (simp_all add: example_state_def)
  have s: "example_store 5 = None" "example_store 6 = None"
    "example_store 2 = Some (Tn [Sc 1, Sc 1, Sc 4])"
    by (simp_all add: example_store_def)
  show ?thesis
    unfolding train_step_def
    by (simp add: example_forward ext m v s example_store_updates)
       (simp add: example_state_def example_state_trained_def)
qed

theorem train_step_routing_witness:
  "compile (NasModel_init example_network [5, 2, 6]) ''sgd'' ''adam'' = Inr example_model
   \<and> train_step example_ext example_model (example_input, example_input) False example_state =
       Inr ([], example_state_trained)
   \<and> (\<exists>evs loss gradients.
        trace example_state_trained = trace example_state @ evs @
          [GradientCalled loss ([5, 6] @ [2]),
           GradientsApplied ''sgd'' (zip (take (length [5, 6 :: nat]) gradients) [5, 6]),
           GradientsApplied ''adam'' (zip (drop (length [5, 6 :: nat]) gradients) [2])])"
proof -
  have tape: "\<And>s w l srcs.
      length (tape_gradient example_ext s w example_input example_input l srcs) = length srcs"
    by (simp add: example_ext_def)
  from train_step_routing [OF example_compile example_train_step tape]
  have "\<exists>evs loss gradients.
        trace example_state_trained = trace example_state @ evs @
          [GradientCalled loss ([5, 6] @ [2]),
           GradientsApplied ''sgd'' (zip (take (length [5, 6 :: nat]) gradients) [5, 6]),
           GradientsApplied ''adam'' (zip (drop (length [5, 6 :: nat]) gradients) [2])]"
  proof (elim exE conjE)
    fix ap nap loss gradients evs
    assume a: "arch_params example_model = Some ap"
      and n: "non_arch_params example_model = Some nap"
      and t: "trace example_state_trained = trace example_state @ evs @
          [GradientCalled loss (nap @ ap),
           GradientsApplied ''sgd'' (zip (take (length nap) gradients) nap),
           GradientsApplied ''adam'' (zip (drop (length nap) gradients) ap)]"
    from a have ap: "ap = [2]" by (simp add: example_model_def)
    from n have nap: "nap = [5, 6]" by (simp add: example_model_def)
    from t show ?thesis unfolding ap nap by (intro exI)
  qed
  with example_compile example_train_step show ?thesis by (intro conjI)
qed

subsection \<open>Finalizing a mixture layer; the cost vector and the distribution\<close>

lemma fold_add_weight:
  fixes st :: "('op, 'opt, 'w) state"
  defines "alloc \<equiv> (\<lambda>vs (st :: ('op, 'opt, 'w) state). fold (\<lambda>v st. snd (add_weight v st)) vs st)"
  shows "next_handle (alloc vs st) = next_handle st + length vs"
    and "h < next_handle st \<Longrightarrow> vars (alloc vs st) h = vars st h"
proof -
  have "next_handle (alloc vs st) = next_handle st + length vs
        \<and> (\<forall>h < next_handle st. vars (alloc vs st) h = vars st h)"
  proof (induction vs arbitrary: st)
    case Nil
    show ?case by (simp add: alloc_def)
  next
    case (Cons v vs)
    have "alloc (v # vs) st = alloc vs (snd (add_weight v st))" by (simp add: alloc_def)
    with Cons [of "snd (add_weight v st)"] show ?case
      by (auto simp: add_weight_def)
  qed
  then show "next_handle (alloc vs st) = next_handle st + length vs"
    and "h < next_handle st \<Longrightarrow> vars (alloc vs st) h = vars st h" by simp_all
qed

lemma build_ops_frame:
  "build_ops E m names input_shape st = Inr st' \<Longrightarrow>
   next_handle st \<le> next_handle st' \<and> (\<forall>h < next_handle st. vars st' h = vars st h)"
proof (induction names arbitrary: st)
  case Nil
  then show ?case by simp
next
  case (Cons name names)
  from Cons.prems obtain layer where
    l: "get_module m name = Inr layer" and
    r: "build_ops E m names input_shape
          (fold (\<lambda>v st. snd (add_weight v st)) (op_build E layer input_shape) st) = Inr st'"
    by (auto split: sum.splits)
  let ?st1 = "fold (\<lambda>v st. snd (add_weight v st)) (op_build E layer input_shape) st"
  note ih = Cons.IH [OF r]
  have n: "next_handle st \<le> next_handle ?st1" by (simp add: fold_add_weight(1))
  have "vars st' h = vars st h" if "h < next_handle st" for h
  proof -
    have "h < next_handle ?st1" using that n by simp
    with ih have "vars st' h = vars ?st1 h" by blast
    then show ?thesis using that by (simp add: fold_add_weight(2))
  qed
  then show ?case using ih n by auto
qed

lemma get_module_sublayers:
  "sublayers m' = sublayers m \<Longrightarrow> get_module m' name = get_module m name"
  by (simp add: get_module_def)

lemma slice_assign_row:
  "length pre = i \<Longrightarrow>
   slice_assign (Tn [Tn (pre @ x # post)]) 0 i v = Inr (Tn [Tn (pre @ Sc v # post)])"
  by (auto simp: slice_assign_def list_update_append)

lemma assign_costs_spec:
  assumes "assign_costs E m c i names input_shape s = Inr s'"
    and "s c = Some (Tn [Tn (pre @ post)])" "length pre = i" "length post = length names"
  shows "\<exists>layers. map (get_module m) names = map Inr layers
           \<and> s' = s(c \<mapsto> Tn [Tn (pre @ map (\<lambda>l. Sc (of_int (get_flops_inputs E l
                                                        (1 # drop 1 input_shape)))) layers)])"
  using assms
proof (induction names arbitrary: i s pre post)
  case Nil
  then have "s' = s" "post = []" by simp_all
  then have "map (get_module m) [] = map Inr []
       \<and> s' = s(c \<mapsto> Tn [Tn (pre @ map (\<lambda>l. Sc (of_int (get_flops_inputs E l
                                                        (1 # drop 1 input_shape)))) [])])"
    using Nil.prems(2) by (simp add: fun_upd_idem)
  then show ?case by blast
next
  case (Cons name names)
  from Cons.prems(4) obtain x post' where post: "post = x # post'"
    and lp: "length post' = length names" by (cases post) auto
  from Cons.prems(1) obtain layer where l: "get_module m name = Inr layer"
    by (auto split: sum.splits)
  define v where "v = (of_int (get_flops_inputs E layer (1 # drop 1 input_shape)) :: real)"
  have sa: "slice_assign (Tn [Tn (pre @ x # post')]) 0 i v = Inr (Tn [Tn (pre @ Sc v # post')])"
    using Cons.prems(3) by (rule slice_assign_row)
  let ?s1 = "assign c (Tn [Tn (pre @ Sc v # post')]) s"
  have r: "assign_costs E m c (Suc i) names input_shape ?s1 = Inr s'"
    using Cons.prems(1) l Cons.prems(2) sa
    by (simp add: post v_def Let_def)
  have s1: "?s1 c = Some (Tn [Tn ((pre @ [Sc v]) @ post')])" by (simp add: assign_def)
  have len: "length (pre @ [Sc v]) = Suc i" using Cons.prems(3) by simp
  from Cons.IH [OF r s1 len lp] obtain layers where
    m: "map (get_module m) names = map Inr layers" and
    s': "s' = ?s1(c \<mapsto> Tn [Tn ((pre @ [Sc v]) @ map (\<lambda>l. Sc (of_int (get_flops_inputs E l
                                                        (1 # drop 1 input_shape)))) layers)])"
    by blast
  have "map (get_module m) (name # names) = map Inr (layer # layers)
       \<and> s' = s(c \<mapsto> Tn [Tn (pre @ map (\<lambda>l. Sc (of_int (get_flops_inputs E l
                                                 (1 # drop 1 input_shape)))) (layer # layers))])"
    using m l s' by (simp add: v_def assign_def)
  then show ?case by blast
qed

lemma build_Inr:
  assumes "build E m input_shape st = Inr (m', st')"
  defines "h \<equiv> next_handle st"
  shows "m' = m\<lparr>built := True, gumbel_temperature := Some h, ops_cost_static := Some (Suc h),
                 gumble_arch_params := Some (Suc (Suc h)),
                 gumbel_dist := Some (Suc (Suc h), h)\<rparr>"
    and "\<exists>layers. map (get_module m) (op_names m) = map Inr layers
           \<and> vars st' (Suc h) =
               Some (Tn [Tn (map (\<lambda>l. Sc (of_int (get_flops_inputs E l (1 # drop 1 input_shape))))
                              layers)])"
    and "vars st' h = Some (Sc 1)"
    and "vars st' (Suc (Suc h)) = Some (Tn (replicate (length (op_names m)) (Sc 1)))"
    and "h + 3 \<le> next_handle st'"
    and "\<forall>k < h. vars st' k = vars st k"
proof -
  let ?n = "length (op_names m)"
  define st1 where "st1 = st\<lparr>vars := (vars st)(h \<mapsto> Sc 1), next_handle := Suc h\<rparr>"
  define st2 where "st2 = st1\<lparr>vars := (vars st1)(Suc h \<mapsto> Tn [Tn (replicate ?n (Sc 0))]),
                              next_handle := Suc (Suc h)\<rparr>"
  define st3 where "st3 = st2\<lparr>vars := (vars st2)(Suc (Suc h) \<mapsto> Tn (replicate ?n (Sc 1))),
                              next_handle := Suc (Suc (Suc h))\<rparr>"
  define m1 where "m1 = m\<lparr>gumbel_temperature := Some h, ops_cost_static := Some (Suc h),
                 gumble_arch_params := Some (Suc (Suc h)),
                 gumbel_dist := Some (Suc (Suc h), h)\<rparr>"
  have aw1: "add_weight (Sc 1) st = (h, st1)"
    by (simp add: add_weight_def st1_def h_def)
  have aw2: "add_weight (Tn [Tn (replicate ?n (Sc 0))]) st1 = (Suc h, st2)"
    by (simp add: add_weight_def st1_def st2_def)
  have aw3: "add_weight (Tn (replicate ?n (Sc 1))) st2 = (Suc (Suc h), st3)"
    by (simp add: add_weight_def st2_def st3_def)
  have unfold: "build E m input_shape st =
      (case build_ops E m1 (op_names m1) input_shape st3 of
         Inl e \<Rightarrow> Inl e
       | Inr st4 \<Rightarrow>
           (case assign_costs E (m1\<lparr>built := True\<rparr>) (Suc h) 0 (op_names (m1\<lparr>built := True\<rparr>))
                   input_shape (vars st4) of
              Inl e \<Rightarrow> Inl e
            | Inr s \<Rightarrow> Inr (m1\<lparr>built := True\<rparr>, st4\<lparr>vars := s\<rparr>)))"
    by (simp only: build_def Let_def aw1 aw2 aw3 prod.case m1_def)
  have bo_ex: "\<exists>st4. build_ops E m1 (op_names m1) input_shape st3 = Inr st4"
    using assms(1) unfolding unfold by (cases "build_ops E m1 (op_names m1) input_shape st3") simp_all
  then obtain st4 where bo: "build_ops E m1 (op_names m1) input_shape st3 = Inr st4" ..
  have names1: "op_names (m1\<lparr>built := True\<rparr>) = op_names m1" by simp
  have u2: "build E m input_shape st =
      (case assign_costs E (m1\<lparr>built := True\<rparr>) (Suc h) 0 (op_names m1) input_shape (vars st4) of
              Inl e \<Rightarrow> Inl e
            | Inr s \<Rightarrow> Inr (m1\<lparr>built := True\<rparr>, st4\<lparr>vars := s\<rparr>))"
    unfolding unfold bo names1 by simp
  have "\<exists>s. assign_costs E (m1\<lparr>built := True\<rparr>) (Suc h) 0 (op_names m1) input_shape (vars st4) = Inr s"
    using assms(1) unfolding u2
    by (cases "assign_costs E (m1\<lparr>built := True\<rparr>) (Suc h) 0 (op_names m1) input_shape (vars st4)")
       simp_all
  then obtain s where
    ac: "assign_costs E (m1\<lparr>built := True\<rparr>) (Suc h) 0 (op_names m1) input_shape (vars st4) = Inr s"
    ..
  have res: "m' = m1\<lparr>built := True\<rparr>" "st' = st4\<lparr>vars := s\<rparr>"
    using assms(1) unfolding u2 ac by simp_all
  have st3_vars: "vars st3 = (vars st)(h \<mapsto> Sc 1, Suc h \<mapsto> Tn [Tn (replicate ?n (Sc 0))],
                                  Suc (Suc h) \<mapsto> Tn (replicate ?n (Sc 1)))"
    and st3_next: "next_handle st3 = Suc (Suc (Suc h))"
    by (simp_all add: st3_def st2_def st1_def)
  note fr = build_ops_frame [OF bo]
  have nh3: "next_handle st3 = h + 3" by (simp add: st3_next)
  have v4: "vars st4 k = vars st3 k" if "k < h + 3" for k
    using fr that nh3 by simp
  have names: "op_names m1 = op_names m" by (simp add: m1_def)
  have c4: "vars st4 (Suc h) = Some (Tn [Tn ([] @ replicate ?n (Sc 0))])"
    using v4 [of "Suc h"] by (simp add: st3_vars)
  from assign_costs_spec [OF ac [unfolded names] c4] obtain layers where
    l0: "map (get_module (m1\<lparr>built := True\<rparr>)) (op_names m) = map Inr layers" and
    s: "s = (vars st4)(Suc h \<mapsto> Tn [Tn ([] @ map (\<lambda>l. Sc (of_int (get_flops_inputs E l
                                                 (1 # drop 1 input_shape)))) layers)])"
    by auto
  have gm: "get_module (m1\<lparr>built := True\<rparr>) = get_module m"
    by (rule ext) (simp add: get_module_def m1_def)
  show "m' = m\<lparr>built := True, gumbel_temperature := Some h, ops_cost_static := Some (Suc h),
                 gumble_arch_params := Some (Suc (Suc h)),
                 gumbel_dist := Some (Suc (Suc h), h)\<rparr>"
    by (simp add: res m1_def)
  have "map (get_module m) (op_names m) = map Inr layers
        \<and> vars st' (Suc h) =
               Some (Tn [Tn (map (\<lambda>l. Sc (of_int (get_flops_inputs E l (1 # drop 1 input_shape))))
                              layers)])"
    using l0 by (simp add: gm res s)
  then show "\<exists>layers. map (get_module m) (op_names m) = map Inr layers
           \<and> vars st' (Suc h) =
               Some (Tn [Tn (map (\<lambda>l. Sc (of_int (get_flops_inputs E l (1 # drop 1 input_shape))))
                              layers)])" by blast
  show "vars st' h = Some (Sc 1)"
    using v4 [of h] by (simp add: res s st3_vars)
  show "vars st' (Suc (Suc h)) = Some (Tn (replicate (length (op_names m)) (Sc 1)))"
    using v4 [of "Suc (Suc h)"] by (simp add: res s st3_vars)
  show "h + 3 \<le> next_handle st'" using fr nh3 by (simp add: res)
  show "\<forall>k < h. vars st' k = vars st k"
  proof (intro allI impI)
    fix k assume "k < h"
    then have "vars st4 k = vars st3 k" "k \<noteq> Suc h" using v4 [of k] by simp_all
    then show "vars st' k = vars st k" using \<open>k < h\<close> by (simp add: res s st3_vars)
  qed
qed

lemma call_vars:
  assumes "call E m inp st = Inr (out, st')"
  shows "vars st' = vars st"
proof -
  from assms obtain examples lv tv logits temperature gw w outs concat_outputs reshaped
      weighted cv ops_cost cost where c:
    "inp = Tn examples" "gumbel_dist m = Some (lv, tv)"
    "vars st lv = Some logits" "vars st tv = Some temperature"
    "sample E (world st) temperature logits (length examples) = (gw, w)"
    "call_ops E m (op_names m) (vars st) inp = Inr outs"
    "stack_axis1 (map snd outs) = Inr concat_outputs"
    "reshape_weights gw (length (shape concat_outputs) - 2) = Inr reshaped"
    "broadcast_mul reshaped concat_outputs = Inr weighted"
    "out = reduce_sum_axis1 weighted"
    "ops_cost_static m = Some cv" "vars st cv = Some ops_cost"
    "broadcast_mul ops_cost gw = Inr cost"
    "st' = st\<lparr>losses := losses st @
                  [reduce_mean (reduce_sum_axis1 (tmul cost (Sc (cost_loss_multiplier m))))],
               world := w,
               trace := trace st @ Sampled temperature logits (length examples)
                          # map (\<lambda>(layer, _). OpCalled layer inp) outs\<rparr>"
    by (rule call_Inr)
  from c(14) show ?thesis by simp
qed

lemma forward_vars:
  "forward E net inp st = Inr (out, st') \<Longrightarrow> vars st' = vars st"
proof (induction net arbitrary: inp st)
  case Nil
  then show ?case by simp
next
  case (Cons a ms)
  show ?case
  proof (cases a)
    case (Other layer)
    with Cons.prems have
      "forward E ms (op_call E layer (vars st) inp) (st\<lparr>trace := trace st @ [OpCalled layer inp]\<rparr>)
       = Inr (out, st')" by simp
    from Cons.IH [OF this] show ?thesis by simp
  next
    case (Mixed m)
    with Cons.prems obtain o1 st1 where
      c: "call E m inp st = Inr (o1, st1)" and f: "forward E ms o1 st1 = Inr (out, st')"
      by (auto split: sum.splits)
    from Cons.IH [OF f] call_vars [OF c] show ?thesis by simp
  qed
qed

lemma collect_arch_params_mem:
  assumes "collect_arch_params net = Inr ap" "h \<in> set ap"
  shows "\<exists>m. Mixed m \<in> set net \<and> gumble_arch_params m = Some h"
proof -
  from collect_arch_params_spec [OF assms(1)]
  have "map Some ap = map gumble_arch_params [m. Mixed m \<leftarrow> net]" by blast
  then have "Some h \<in> set (map gumble_arch_params [m. Mixed m \<leftarrow> net])"
    using assms(2) by (metis image_eqI list.set_map)
  then obtain m where "m \<in> set [m. Mixed m \<leftarrow> net]" "gumble_arch_params m = Some h"
    by auto
  moreover from this(1) have "Mixed m \<in> set net" by (auto split: module.splits)
  ultimately show ?thesis by blast
qed

lemma train_step_vars:
  assumes comp: "compile nm0 po ao = Inr nm"
    and run: "train_step E nm data slow_assert st = Inr (metrics, st')"
    and fr: "writes_only_given E"
    and nt: "c \<notin> set (trainable_variables nm0)"
    and na: "\<forall>m. Mixed m \<in> set (mod_net nm0) \<longrightarrow> gumble_arch_params m \<noteq> Some c"
  shows "vars st' c = vars st c"
proof -
  obtain x y where data: "data = (x, y)" by (cases data)
  from comp obtain ap nap where f:
    "arch_params nm = Some ap" "non_arch_params nm = Some nap"
    "concat_params nm = Some (nap @ ap)" "optimizer nm = Some po" "arch_optimizer nm = Some ao"
    "mod_net nm = mod_net nm0" "trainable_variables nm = trainable_variables nm0"
    "collect_arch_params (mod_net nm0) = Inr ap"
    "nap = filter (\<lambda>v. v \<notin> set ap) (trainable_variables nm0)"
    by (rule compile_fields)
  have cap: "c \<notin> set ap" using collect_arch_params_mem [OF f(8)] na by blast
  have cnap: "c \<notin> set nap" using nt f(9) by simp
  from run obtain y_pred st1 where fw: "NasModel_call E nm x st = Inr (y_pred, st1)"
    by (auto simp: train_step_def data split: sum.splits)
  then have v1: "vars st1 = vars st"
    using forward_vars [of E "mod_net nm" x "st\<lparr>losses := []\<rparr>" y_pred st1]
    by (simp add: NasModel_call_def)
  define loss where "loss = compiled_loss E y y_pred (losses st1)"
  define gradients where "gradients = tape_gradient E (vars st) (world st) x y loss (nap @ ap)"
  define p1 where "p1 = zip (take (length nap) gradients) nap"
  define p2 where "p2 = zip (drop (length nap) gradients) ap"
  obtain s2 w2 where a1: "apply_gradients E po p1 (vars st1, world st1) = (s2, w2)"
    by (cases "apply_gradients E po p1 (vars st1, world st1)")
  obtain s3 w3 where a2: "apply_gradients E ao p2 (s2, w2) = (s3, w3)"
    by (cases "apply_gradients E ao p2 (s2, w2)")
  have checks: "list_all (\<lambda>(first, second). first = second) (zip nap (take (length nap) (nap @ ap)))
      \<and> list_all (\<lambda>(first, second). first = second) (zip ap (drop (length nap) (nap @ ap)))"
    by (simp add: zip_self_all)
  have res: "train_step E nm (x, y) slow_assert st =
      Inr (metrics_result E (update_metrics E y y_pred w3),
           st1\<lparr>vars := s3, world := update_metrics E y y_pred w3,
               trace := trace st1 @ [GradientCalled loss (nap @ ap),
                                     GradientsApplied po p1, GradientsApplied ao p2]\<rparr>)"
    unfolding train_step_def
    using checks a1 a2
    by (simp add: fw f(1-5) Let_def loss_def [symmetric] gradients_def [symmetric]
        p1_def [symmetric] p2_def [symmetric] del: take_append drop_append)
  with run data have "st' = st1\<lparr>vars := s3, world := update_metrics E y y_pred w3,
               trace := trace st1 @ [GradientCalled loss (nap @ ap),
                                     GradientsApplied po p1, GradientsApplied ao p2]\<rparr>"
    by simp
  then have v': "vars st' = s3" by simp
  have "c \<notin> snd ` set p1" using cnap by (auto simp: p1_def dest: set_zip_rightD)
  with fr a1 have "s2 c = vars st1 c"
    unfolding writes_only_given_def by (metis fst_conv)
  moreover have "c \<notin> snd ` set p2" using cap by (auto simp: p2_def dest: set_zip_rightD)
  with fr a2 have "s3 c = s2 c"
    unfolding writes_only_given_def by (metis fst_conv)
  ultimately show ?thesis using v' v1 by simp
qed

lemma run_steps_frame:
  assumes fr: "writes_only_given E"
    and ts: "\<forall>nm d sl. TrainStep nm d sl \<in> set steps \<longrightarrow>
              (\<exists>nm0 po ao. compile nm0 po ao = Inr nm
                 \<and> c \<notin> set (trainable_variables nm0)
                 \<and> (\<forall>m. Mixed m \<in> set (mod_net nm0) \<longrightarrow> gumble_arch_params m \<noteq> Some c))"
    and run: "run_steps E steps st1 = Inr st2"
  shows "vars st2 c = vars st1 c"
  using ts run
proof (induction steps arbitrary: st1)
  case Nil
  then show ?case by simp
next
  case (Cons a steps)
  have ts': "\<forall>nm d sl. TrainStep nm d sl \<in> set steps \<longrightarrow>
              (\<exists>nm0 po ao. compile nm0 po ao = Inr nm
                 \<and> c \<notin> set (trainable_variables nm0)
                 \<and> (\<forall>m. Mixed m \<in> set (mod_net nm0) \<longrightarrow> gumble_arch_params m \<noteq> Some c))"
  proof (intro allI impI)
    fix nm d sl
    assume "TrainStep nm d sl \<in> set steps"
    then have "TrainStep nm d sl \<in> set (a # steps)" by simp
    with Cons.prems(1) show "\<exists>nm0 po ao. compile nm0 po ao = Inr nm
                 \<and> c \<notin> set (trainable_variables nm0)
                 \<and> (\<forall>m. Mixed m \<in> set (mod_net nm0) \<longrightarrow> gumble_arch_params m \<noteq> Some c)"
      by blast
  qed
  show ?case
  proof (cases a)
    case (Forward m inp)
    with Cons.prems(2) obtain out st' where
      c: "call E m inp st1 = Inr (out, st')" and r: "run_steps E steps st' = Inr st2"
      by (auto split: sum.splits)
    from Cons.IH [OF ts' r] call_vars [OF c] show ?thesis by simp
  next
    case (TrainStep nm d sl)
    with Cons.prems(2) obtain metrics st' where
      t: "train_step E nm d sl st1 = Inr (metrics, st')" and r: "run_steps E steps st' = Inr st2"
      by (auto split: sum.splits)
    have "TrainStep nm d sl \<in> set (a # steps)" by (simp add: TrainStep)
    with Cons.prems(1) obtain nm0 po ao where
      "compile nm0 po ao = Inr nm" "c \<notin> set (trainable_variables nm0)"
      "\<forall>m. Mixed m \<in> set (mod_net nm0) \<longrightarrow> gumble_arch_params m \<noteq> Some c"
      by blast
    from train_step_vars [OF this(1) t fr this(2,3)] Cons.IH [OF ts' r]
    show ?thesis by simp
  qed
qed



lemma example_build:
  "\<exists>st. build example_ext example_layer_unbuilt [8, 2] example_state0 = Inr (example_layer, st)
        \<and> vars st 1 = Some (Tn [Tn [Sc 20, Sc 22, Sc 24]])"
  by (simp add: build_def add_weight_def get_module_def slice_assign_def assign_def
      example_ext_def example_layer_unbuilt_def example_layer_def example_state0_def Let_def)

lemma example_writes_only_given: "writes_only_given example_ext"
proof -
  have "fold (\<lambda>(g, h) s. s(h := g)) pairs s h = s h" if "h \<notin> snd ` set pairs"
    for pairs :: "(real tensor option \<times> handle) list" and s :: store and h
    using that by (induction pairs arbitrary: s) (auto simp: split_def)
  then show ?thesis
    by (simp add: writes_only_given_def example_ext_def)
qed

lemma example_call_trained:
  "\<exists>out st'. call example_ext example_layer example_input example_state_trained = Inr (out, st')"
  by (simp add: call_def example_ext_def example_layer_def example_input_def
      example_state_trained_def
      example_store_def get_module_def stack_axis1_def reshape_weights_def broadcast_mul_def
      compatible_def reduce_sum_axis1_def tsum_def reduce_mean_def matrix_def)

lemma example_run:
  "\<exists>st2. run_steps example_ext
           [TrainStep example_model (example_input, example_input) False,
            Forward example_layer example_input] example_state = Inr st2"
proof -
  from example_call_trained obtain out st' where
    "call example_ext example_layer example_input example_state_trained = Inr (out, st')"
    by blast
  then show ?thesis by (simp add: example_train_step)
qed



text \<open>
  C9. \<^verbatim>\<open>build\<close> creates the cost vector as a new variable (its handle was free before
  and is distinct from the layer's temperature and preference variables) and leaves in
  it, at each operation's index, the profiler's count for that operation on
  \<^verbatim>\<open>[1] + input_shape[1:]\<close>. Afterwards, over any sequence of forward passes and training
  steps starting in any state, the value of that variable does not change, provided the
  optimizers write only the variables they are given and, for every model trained, the
  cost vector is not among its trainable variables and is no layer's preference vector.
\<close>

theorem cost_vector_frame:
  assumes b: "build E m input_shape st0 = Inr (m', st)"
    and c: "ops_cost_static m' = Some c"
    and fr: "writes_only_given E"
    and ts: "\<forall>nm d sl. TrainStep nm d sl \<in> set steps \<longrightarrow>
              (\<exists>nm0 po ao. compile nm0 po ao = Inr nm
                 \<and> c \<notin> set (trainable_variables nm0)
                 \<and> (\<forall>m. Mixed m \<in> set (mod_net nm0) \<longrightarrow> gumble_arch_params m \<noteq> Some c))"
    and run: "run_steps E steps st1 = Inr st2"
  shows "(\<exists>layers. map (get_module m) (op_names m) = map Inr layers
            \<and> vars st c =
                Some (Tn [Tn (map (\<lambda>l. Sc (of_int (get_flops_inputs E l (1 # drop 1 input_shape))))
                               layers)]))
       \<and> next_handle st0 \<le> c \<and> c < next_handle st
       \<and> gumble_arch_params m' \<noteq> Some c \<and> gumbel_temperature m' \<noteq> Some c
       \<and> vars st2 c = vars st1 c"
proof -
  note bi = build_Inr [OF b]
  from bi(1) c have ceq: "c = Suc (next_handle st0)" by simp
  have 1: "\<exists>layers. map (get_module m) (op_names m) = map Inr layers
            \<and> vars st c =
                Some (Tn [Tn (map (\<lambda>l. Sc (of_int (get_flops_inputs E l (1 # drop 1 input_shape))))
                               layers)])"
    using bi(2) unfolding ceq .
  have 2: "next_handle st0 \<le> c \<and> c < next_handle st" using bi(5) ceq by simp
  have 3: "gumble_arch_params m' \<noteq> Some c \<and> gumbel_temperature m' \<noteq> Some c"
    using bi(1) ceq by simp
  have 4: "vars st2 c = vars st1 c" by (rule run_steps_frame [OF fr ts run])
  show ?thesis using 1 2 3 4 by blast
qed


theorem cost_vector_frame_witness:
  "(\<exists>st. build example_ext example_layer_unbuilt [8, 2] example_state0 = Inr (example_layer, st)
        \<and> vars st 1 = Some (Tn [Tn [Sc 20, Sc 22, Sc 24]]))
   \<and> ops_cost_static example_layer = Some 1
   \<and> writes_only_given example_ext
   \<and> (\<exists>st2. run_steps example_ext
           [TrainStep example_model (example_input, example_input) False,
            Forward example_layer example_input] example_state = Inr st2
         \<and> vars st2 1 = vars example_state 1)"
proof -
  from example_build obtain st where
    b: "build example_ext example_layer_unbuilt [8, 2] example_state0 = Inr (example_layer, st)"
    by blast
  have c: "ops_cost_static example_layer = Some 1" by (simp add: example_layer_def)
  from example_run obtain st2 where
    run: "run_steps example_ext
           [TrainStep example_model (example_input, example_input) False,
            Forward example_layer example_input] example_state = Inr st2" by blast
  have net: "\<forall>m. Mixed m \<in> set (mod_net (NasModel_init example_network [5, 2, 6])) \<longrightarrow>
               gumble_arch_params m \<noteq> Some 1"
    by (simp add: NasModel_init_def example_network_def example_layer_def)
  have tv: "(1::nat) \<notin> set (trainable_variables (NasModel_init example_network [5, 2, 6]))"
    by (simp add: NasModel_init_def)
  have ts: "\<forall>nm d sl. TrainStep nm d sl \<in> set
              [TrainStep example_model (example_input, example_input) False,
               Forward example_layer example_input] \<longrightarrow>
              (\<exists>nm0 po ao. compile nm0 po ao = Inr nm
                 \<and> 1 \<notin> set (trainable_variables nm0)
                 \<and> (\<forall>m. Mixed m \<in> set (mod_net nm0) \<longrightarrow> gumble_arch_params m \<noteq> Some 1))"
  proof (intro allI impI)
    fix nm d sl
    assume "TrainStep nm d sl \<in> set
              [TrainStep example_model (example_input, example_input) False,
               Forward example_layer example_input]"
    then have "nm = example_model" by simp
    with example_compile tv net
    show "\<exists>nm0 po ao. compile nm0 po ao = Inr nm
                 \<and> 1 \<notin> set (trainable_variables nm0)
                 \<and> (\<forall>m. Mixed m \<in> set (mod_net nm0) \<longrightarrow> gumble_arch_params m \<noteq> Some 1)"
      by blast
  qed
  from cost_vector_frame [OF b c example_writes_only_given ts run]
  have "vars st2 1 = vars example_state 1" by blast
  with run have "\<exists>st2. run_steps example_ext
           [TrainStep example_model (example_input, example_input) False,
            Forward example_layer example_input] example_state = Inr st2
         \<and> vars st2 1 = vars example_state 1" by blast
  with example_build c example_writes_only_given show ?thesis by blast
qed




end
